theory Spec2Isabelle
  imports Complex_Main "HOL-Library.Word"
begin

section \<open>The tensor encoding pipeline of tensor_visualizer.py\<close>

text \<open>
  The module turns a tensor of a numeric library into a JSON envelope: it normalises the
  input to a NumPy array (\<open>tensor_to_numpy\<close>), permutes its axes, looks the element type
  up in \<open>dtype_mapping\<close>, serialises the elements to bytes, shuffles the bytes with a
  fixed stride, compresses them with zlib and writes them as base64 text
  (\<open>tensor_to_json\<close>). \<open>apply_permute\<close> reorders the per-axis metadata.

  NumPy, zlib and base64 are libraries the module calls. The NumPy calls and base64 are
  modelled here by what they compute on the data the module hands them; zlib is a
  parameter of the model.
\<close>

subsection \<open>Python errors\<close>

text \<open>
  Every \<open>raise\<close> of the module is a \<open>ValueError\<close> with a message. \<open>AxisError\<close> is what
  \<open>np.transpose\<close> raises for an axis out of bounds.
\<close>

datatype py_error = ValueError string | AxisError

text \<open>The three errors of the module, under the names the specification gives them.\<close>

definition UnsupportedInputError :: py_error where
  "UnsupportedInputError = ValueError ''expect input to be numpy array or torch tensor''"

definition ShapeMismatchError :: py_error where
  "ShapeMismatchError = ValueError ''permute must be the same length as the tensor's shape''"

subsection \<open>NumPy arrays\<close>

type_synonym byte = "8 word"

text \<open>
  Element types. The first eight are the keys of \<open>dtype_mapping\<close>; the others stand for
  the native element types the table does not list.
\<close>

datatype dtype =
    np_float16 | np_float32 | np_float64
  | np_int8 | np_uint8 | np_int16 | np_int32 | np_int64
  | np_bool | np_uint16 | np_uint32 | np_uint64
  | np_complex64 | np_complex128

text \<open>\<open>dtype.itemsize\<close>: the width of one element in bytes.\<close>

fun itemsize :: "dtype \<Rightarrow> nat" where
  "itemsize np_float16 = 2"
| "itemsize np_float32 = 4"
| "itemsize np_float64 = 8"
| "itemsize np_int8 = 1"
| "itemsize np_uint8 = 1"
| "itemsize np_int16 = 2"
| "itemsize np_int32 = 4"
| "itemsize np_int64 = 8"
| "itemsize np_bool = 1"
| "itemsize np_uint16 = 2"
| "itemsize np_uint32 = 4"
| "itemsize np_uint64 = 8"
| "itemsize np_complex64 = 8"
| "itemsize np_complex128 = 16"

text \<open>\<open>str(dtype)\<close>, as the f-string of the error message prints it.\<close>

fun dtype_str :: "dtype \<Rightarrow> string" where
  "dtype_str np_float16 = ''float16''"
| "dtype_str np_float32 = ''float32''"
| "dtype_str np_float64 = ''float64''"
| "dtype_str np_int8 = ''int8''"
| "dtype_str np_uint8 = ''uint8''"
| "dtype_str np_int16 = ''int16''"
| "dtype_str np_int32 = ''int32''"
| "dtype_str np_int64 = ''int64''"
| "dtype_str np_bool = ''bool''"
| "dtype_str np_uint16 = ''uint16''"
| "dtype_str np_uint32 = ''uint32''"
| "dtype_str np_uint64 = ''uint64''"
| "dtype_str np_complex64 = ''complex64''"
| "dtype_str np_complex128 = ''complex128''"

definition UnsupportedDtypeError :: "dtype \<Rightarrow> py_error" where
  "UnsupportedDtypeError d = ValueError (''unsupported dtype '' @ dtype_str d)"

text \<open>
  An array is its element type, its shape and its elements in row-major (C) order, which
  is the order \<open>flatten()\<close> reads them in whatever the strides of the array are. An
  element is the bit pattern it has in memory, a number below \<open>256 ^ itemsize\<close>.
\<close>

record ndarray =
  nd_dtype :: dtype
  nd_shape :: "nat list"
  nd_items :: "nat list"

definition nd_size :: "ndarray \<Rightarrow> nat" where
  "nd_size a = prod_list (nd_shape a)"

text \<open>The invariant of a NumPy array: as many elements as the shape says, each of the width of the element type.\<close>

definition wf_ndarray :: "ndarray \<Rightarrow> bool" where
  "wf_ndarray a \<longleftrightarrow>
     length (nd_items a) = nd_size a \<and>
     list_all (\<lambda>x. x < 256 ^ itemsize (nd_dtype a)) (nd_items a)"

text \<open>Row-major strides, counted in elements, and the multi-index of a flat position.\<close>

definition c_strides :: "nat list \<Rightarrow> nat list" where
  "c_strides shp = map (\<lambda>i. prod_list (drop (Suc i) shp)) [0..<length shp]"

fun unravel :: "nat list \<Rightarrow> nat \<Rightarrow> nat list" where
  "unravel [] k = []"
| "unravel (d # ds) k = (k div prod_list ds) # unravel ds (k mod prod_list ds)"

definition offset :: "nat list \<Rightarrow> nat list \<Rightarrow> nat" where
  "offset strides idx = sum_list (map2 (*) idx strides)"

text \<open>
  Transposition with axes already validated: NumPy permutes shape and strides, so the
  element at multi-index \<open>idx\<close> of the result is the one at offset
  \<open>\<Sum>j. idx ! j * strides ! (axes ! j)\<close> of the original.
\<close>

definition transpose_axes :: "ndarray \<Rightarrow> nat list \<Rightarrow> ndarray" where
  "transpose_axes a axes =
     (let shp = map (\<lambda>p. nd_shape a ! p) axes;
          strides = map (\<lambda>p. c_strides (nd_shape a) ! p) axes
      in a\<lparr>nd_shape := shp,
            nd_items := map (\<lambda>k. nd_items a ! offset strides (unravel shp k))
                          [0..<prod_list shp]\<rparr>)"

text \<open>
  The checks of \<open>np.transpose(a, axes)\<close> once the length is right: each axis in turn must
  lie in \<open>-ndim ..< ndim\<close> (a negative axis counts from the end) and must not repeat an
  earlier one.
\<close>

fun check_axes :: "nat \<Rightarrow> nat list \<Rightarrow> int list \<Rightarrow> py_error + nat list" where
  "check_axes n seen [] = Inr (rev seen)"
| "check_axes n seen (ax # rest) =
     (if ax < - int n \<or> int n \<le> ax then Inl AxisError
      else let k = nat (if ax < 0 then ax + int n else ax)
           in if k \<in> set seen then Inl (ValueError ''repeated axis in transpose'')
              else check_axes n (k # seen) rest)"

definition np_transpose :: "ndarray \<Rightarrow> int list \<Rightarrow> py_error + ndarray" where
  "np_transpose a axes =
     (if length axes \<noteq> length (nd_shape a) then Inl (ValueError ''axes don't match array'')
      else case check_axes (length (nd_shape a)) [] axes of
             Inl e \<Rightarrow> Inl e
           | Inr p \<Rightarrow> Inr (transpose_axes a p))"

text \<open>\<open>a.T\<close> reverses the axes.\<close>

definition np_T :: "ndarray \<Rightarrow> ndarray" where
  "np_T a = transpose_axes a (rev [0..<length (nd_shape a)])"

definition np_flatten :: "ndarray \<Rightarrow> ndarray" where
  "np_flatten a = a\<lparr>nd_shape := [nd_size a]\<rparr>"

text \<open>
  \<open>a.reshape(newshape)\<close>, where one dimension may be \<open>-1\<close> and is then computed from the
  size of the array.
\<close>

definition np_reshape :: "ndarray \<Rightarrow> int list \<Rightarrow> py_error + ndarray" where
  "np_reshape a newshape =
     (let known = nat (prod_list (filter (\<lambda>d. d \<noteq> - 1) newshape)) in
      if list_ex (\<lambda>d. d < - 1) newshape
        then Inl (ValueError ''negative dimensions not allowed'')
      else if 1 < length (filter (\<lambda>d. d = - 1) newshape)
        then Inl (ValueError ''can only specify one unknown dimension'')
      else if - 1 \<in> set newshape
        then (if known = 0 \<or> nd_size a mod known \<noteq> 0
                then Inl (ValueError ''cannot reshape array'')
              else Inr (a\<lparr>nd_shape :=
                     map (\<lambda>d. if d = - 1 then nd_size a div known else nat d) newshape\<rparr>))
      else if known \<noteq> nd_size a then Inl (ValueError ''cannot reshape array'')
      else Inr (a\<lparr>nd_shape := map nat newshape\<rparr>))"

text \<open>\<open>a.tobytes()\<close>: the elements in row-major order, each in little-endian byte order.\<close>

definition le_bytes :: "nat \<Rightarrow> nat \<Rightarrow> byte list" where
  "le_bytes w x = map (\<lambda>i. of_nat (x div 256 ^ i)) [0..<w]"

definition np_tobytes :: "ndarray \<Rightarrow> byte list" where
  "np_tobytes a = concat (map (le_bytes (itemsize (nd_dtype a))) (nd_items a))"

text \<open>\<open>np.frombuffer(buf, dtype=np.byte)\<close>: a one-dimensional int8 array over the bytes.\<close>

definition np_frombuffer_byte :: "byte list \<Rightarrow> ndarray" where
  "np_frombuffer_byte buf =
     \<lparr>nd_dtype = np_int8, nd_shape = [length buf], nd_items = map unat buf\<rparr>"

text \<open>
  \<open>a.astype(t)\<close>. The table of the module asks for two kinds of cast only: to the
  element type the array already has, which leaves every element as it is, and from
  float16 to float32. The latter is the IEEE 754 widening of binary16 to binary32 as
  NumPy computes it on the bit pattern: the sign moves to bit 31; a normal number has its
  exponent rebiased from 15 to 127 and its 10 fraction bits moved to the top of the 23; a
  subnormal is shifted left until its leading one reaches bit 10, each shift lowering the
  exponent; infinities and NaNs keep the all-ones exponent.
\<close>

text \<open>
  The normalisation loop \<open>while ((h_sig & 0x0400) == 0) { h_sig <<= 1; h_exp++; }\<close>.
  It is entered with \<open>0 < h_sig < 2048\<close>, where the test on bit 10 is \<open>h_sig < 1024\<close>.
\<close>

function half_normalize :: "nat \<Rightarrow> nat \<Rightarrow> nat \<times> nat" where
  "half_normalize h_sig h_exp =
     (if 0 < h_sig \<and> h_sig < 1024 then half_normalize (2 * h_sig) (Suc h_exp)
      else (h_sig, h_exp))"
  by pat_completeness auto
termination
  by (relation "measure (\<lambda>(h_sig, h_exp). 1024 - h_sig)") auto

definition half_to_float :: "nat \<Rightarrow> nat" where
  "half_to_float h =
     (let f_sgn = (h div 32768 mod 2) * 2 ^ 31;
          h_exp = h div 1024 mod 32;
          h_sig = h mod 1024
      in if h_exp = 0 then
           (if h_sig = 0 then f_sgn
            else let (sig, k) = half_normalize (2 * h_sig) 0
                 in f_sgn + (127 - 15 - k) * 2 ^ 23 + (sig mod 1024) * 2 ^ 13)
         else if h_exp = 31 then f_sgn + 0x7f800000 + h_sig * 2 ^ 13
         else f_sgn + (h mod 32768 + 0x1c000) * 2 ^ 13)"

text \<open>
  In \<open>half_to_float\<close> the masks and shifts of the conversion are written as arithmetic:
  \<open>h div 32768 mod 2\<close> is the sign bit, \<open>h div 1024 mod 32\<close> the exponent field,
  \<open>h mod 1024\<close> the fraction field, and a left shift by \<open>n\<close> is a product with \<open>2 ^ n\<close>.
  A cast between any other pair of element types is never asked for by the module and is
  left unspecified.
\<close>

definition cast_item :: "dtype \<Rightarrow> dtype \<Rightarrow> nat \<Rightarrow> nat" where
  "cast_item s t x =
     (if s = t then x
      else if s = np_float16 \<and> t = np_float32 then half_to_float x
      else undefined)"

definition np_astype :: "ndarray \<Rightarrow> dtype \<Rightarrow> ndarray" where
  "np_astype a t = a\<lparr>nd_dtype := t, nd_items := map (cast_item (nd_dtype a) t) (nd_items a)\<rparr>"

subsection \<open>base64 and zlib\<close>

definition b64_alphabet :: string where
  "b64_alphabet = ''ABCDEFGHIJKLMNOPQRSTUVWXYZabcdefghijklmnopqrstuvwxyz0123456789+/''"

text \<open>
  \<open>base64.b64encode\<close>: three bytes become four characters of the alphabet, six bits
  each; a last group of one or two bytes is padded with \<open>=\<close>.
\<close>

fun b64encode :: "byte list \<Rightarrow> string" where
  "b64encode [] = []"
| "b64encode [a] =
     (let n = unat a * 65536
      in [b64_alphabet ! (n div 262144), b64_alphabet ! (n div 4096 mod 64),
          CHR ''='', CHR ''=''])"
| "b64encode [a, b] =
     (let n = unat a * 65536 + unat b * 256
      in [b64_alphabet ! (n div 262144), b64_alphabet ! (n div 4096 mod 64),
          b64_alphabet ! (n div 64 mod 64), CHR ''=''])"
| "b64encode (a # b # c # rest) =
     (let n = unat a * 65536 + unat b * 256 + unat c
      in [b64_alphabet ! (n div 262144), b64_alphabet ! (n div 4096 mod 64),
          b64_alphabet ! (n div 64 mod 64), b64_alphabet ! (n mod 64)] @ b64encode rest)"

text \<open>
  The zlib module is not modelled: \<open>compress\<close> (with its level) and \<open>decompress\<close> are
  parameters, and \<open>zlib_inverse\<close> is the one property of zlib the properties below rely on.
\<close>

record zlib_module =
  compress :: "nat \<Rightarrow> byte list \<Rightarrow> byte list"
  decompress :: "byte list \<Rightarrow> byte list option"

definition Z_BEST_SPEED :: nat where
  "Z_BEST_SPEED = 1"

definition zlib_inverse :: "zlib_module \<Rightarrow> bool" where
  "zlib_inverse zlib \<longleftrightarrow> (\<forall>level buf. decompress zlib (compress zlib level buf) = Some buf)"

subsection \<open>The module\<close>

definition dtype_mapping :: "dtype \<rightharpoonup> dtype \<times> string \<times> string \<times> nat option" where
  "dtype_mapping = map_of
     [(np_float16, (np_float32, ''float32'', ''zlib'', Some 4)),
      (np_float32, (np_float32, ''float32'', ''zlib'', Some 4)),
      (np_float64, (np_float64, ''float64'', ''zlib'', Some 8)),
      (np_int8, (np_int8, ''int8'', ''zlib'', None)),
      (np_uint8, (np_uint8, ''uint8'', ''zlib'', None)),
      (np_int16, (np_int16, ''int16'', ''zlib'', Some 2)),
      (np_int32, (np_int32, ''int32'', ''zlib'', Some 4)),
      (np_int64, (np_int64, ''int64'', ''zlib'', Some 8))]"

text \<open>
  The values \<open>tensor_to_numpy\<close> can be handed. A tensor of a numeric library carries the
  object its conversion call returns (\<open>tensor.detach().cpu().numpy()\<close> for torch,
  \<open>np.array(tensor)\<close> for mlx, \<open>tensor.numpy()\<close> for tensorflow); a conversion that
  raises on its own is outside the model.
\<close>

datatype pyobj =
    NdArray ndarray
  | TorchTensor pyobj
  | MlxArray pyobj
  | TfTensor pyobj
  | OtherObject

text \<open>\<open>sys_modules\<close> is the set of keys of \<open>sys.modules\<close>.\<close>

definition tensor_to_numpy :: "string set \<Rightarrow> pyobj \<Rightarrow> py_error + ndarray" where
  "tensor_to_numpy sys_modules tensor =
     (let tensor = (if ''torch'' \<in> sys_modules
                    then (case tensor of TorchTensor r \<Rightarrow> r | _ \<Rightarrow> tensor) else tensor);
          tensor = (if ''mlx.core'' \<in> sys_modules
                    then (case tensor of MlxArray r \<Rightarrow> r | _ \<Rightarrow> tensor) else tensor);
          tensor = (if ''tensorflow'' \<in> sys_modules
                    then (case tensor of TfTensor r \<Rightarrow> r | _ \<Rightarrow> tensor) else tensor)
      in case tensor of
           NdArray a \<Rightarrow> Inr a
         | _ \<Rightarrow> Inl UnsupportedInputError)"

text \<open>
  Two predicates on an input: that it is a NumPy array already, and that it is an instance of the
  tensor type of a library that is loaded.
\<close>

definition is_ndarray :: "pyobj \<Rightarrow> bool" where
  "is_ndarray x = (case x of NdArray a \<Rightarrow> True | _ \<Rightarrow> False)"

definition isinstance_loaded :: "string set \<Rightarrow> pyobj \<Rightarrow> bool" where
  "isinstance_loaded sys_modules x =
     (case x of
        TorchTensor r \<Rightarrow> ''torch'' \<in> sys_modules
      | MlxArray r \<Rightarrow> ''mlx.core'' \<in> sys_modules
      | TfTensor r \<Rightarrow> ''tensorflow'' \<in> sys_modules
      | _ \<Rightarrow> False)"

text \<open>The envelope, a dict with the keys \<open>shape\<close>, \<open>compression\<close>, \<open>shuffle\<close>, \<open>dtype\<close> and \<open>data\<close>.\<close>

record envelope =
  json_shape :: "int list"
  json_compression :: string
  json_shuffle :: "nat option"
  json_dtype :: string
  json_data :: string

text \<open>Lines 63 to 66 of \<open>tensor_to_json\<close>: the permutation.\<close>

definition permute_input :: "ndarray \<Rightarrow> int list option \<Rightarrow> py_error + ndarray" where
  "permute_input input permute =
     (case permute of
        None \<Rightarrow> Inr input
      | Some p \<Rightarrow>
          if length p \<noteq> length (nd_shape input) then Inl ShapeMismatchError
          else np_transpose input p)"

text \<open>
  Lines 72 to 78: with a stride, the bytes are viewed as a grid of rows of \<open>shuffle\<close>
  bytes, the grid is transposed and read out again.
\<close>

definition shuffle_bytes :: "nat option \<Rightarrow> byte list \<Rightarrow> py_error + byte list" where
  "shuffle_bytes shuffle binary_data =
     (case shuffle of
        None \<Rightarrow> Inr binary_data
      | Some s \<Rightarrow>
          (case np_reshape (np_frombuffer_byte binary_data) [- 1, int s] of
             Inl e \<Rightarrow> Inl e
           | Inr grid \<Rightarrow> Inr (np_tobytes (np_flatten (np_T grid)))))"

definition tensor_to_json ::
  "zlib_module \<Rightarrow> string set \<Rightarrow> pyobj option \<Rightarrow> int list option \<Rightarrow> py_error + envelope option"
where
  "tensor_to_json zlib sys_modules input permute =
     (case input of
        None \<Rightarrow> Inr None
      | Some tensor \<Rightarrow>
          (case tensor_to_numpy sys_modules tensor of
             Inl e \<Rightarrow> Inl e
           | Inr input \<Rightarrow>
               (case permute_input input permute of
                  Inl e \<Rightarrow> Inl e
                | Inr input \<Rightarrow>
                    (case dtype_mapping (nd_dtype input) of
                       None \<Rightarrow> Inl (UnsupportedDtypeError (nd_dtype input))
                     | Some (target_dtype, dtype, compression, shuffle) \<Rightarrow>
                         (case shuffle_bytes shuffle
                                 (np_tobytes (np_flatten (np_astype input target_dtype))) of
                            Inl e \<Rightarrow> Inl e
                          | Inr binary_data \<Rightarrow>
                              Inr (Some
                                \<lparr>json_shape = map int (nd_shape input),
                                 json_compression = compression,
                                 json_shuffle = shuffle,
                                 json_dtype = dtype,
                                 json_data = b64encode
                                   (if compression = ''zlib''
                                    then compress zlib Z_BEST_SPEED binary_data
                                    else binary_data)\<rparr>))))))"

text \<open>
  \<open>apply_permute\<close>. \<open>array[i]\<close> on a Python list counts a negative index from the end and
  raises \<open>IndexError\<close> outside \<open>-len ..< len\<close>; the comprehension stops at the first
  element that raises.
\<close>

datatype index_error = IndexError

definition list_getitem :: "'a list \<Rightarrow> int \<Rightarrow> index_error + 'a" where
  "list_getitem xs i =
     (let n = int (length xs); j = (if i < 0 then n + i else i)
      in if 0 \<le> j \<and> j < n then Inr (xs ! nat j) else Inl IndexError)"

fun permute_items :: "'a list \<Rightarrow> int list \<Rightarrow> index_error + 'a option list" where
  "permute_items array [] = Inr []"
| "permute_items array (i # permute) =
     (case (if i < int (length array)
            then (case list_getitem array i of Inl e \<Rightarrow> Inl e | Inr x \<Rightarrow> Inr (Some x))
            else Inr None) of
        Inl e \<Rightarrow> Inl e
      | Inr v \<Rightarrow>
          (case permute_items array permute of
             Inl e \<Rightarrow> Inl e
           | Inr vs \<Rightarrow> Inr (v # vs)))"

definition apply_permute :: "'a list option \<Rightarrow> int list \<Rightarrow> index_error + 'a option list option" where
  "apply_permute array permute =
     (case array of
        None \<Rightarrow> Inr None
      | Some xs \<Rightarrow> (case permute_items xs permute of Inl e \<Rightarrow> Inl e | Inr r \<Rightarrow> Inr (Some r)))"

subsection \<open>Permutations\<close>

text \<open>
  The axis a (possibly negative) entry of \<open>permute\<close> names, and the lists of axes
  \<open>np.transpose\<close> accepts for an array of \<open>n\<close> dimensions. The permutations of the
  specification, the bijections over \<open>0..n-1\<close>, are among them.
\<close>

definition norm_axis :: "nat \<Rightarrow> int \<Rightarrow> nat" where
  "norm_axis n ax = nat (if ax < 0 then ax + int n else ax)"

definition valid_axes :: "nat \<Rightarrow> int list \<Rightarrow> bool" where
  "valid_axes n axes \<longleftrightarrow>
     length axes = n \<and>
     list_all (\<lambda>ax. - int n \<le> ax \<and> ax < int n) axes \<and>
     distinct (map (norm_axis n) axes)"

text \<open>
  A permutation argument the transposition accepts (none at all, or valid axes), and the
  dimensions of the array once it has been applied.
\<close>

definition permute_ok :: "ndarray \<Rightarrow> int list option \<Rightarrow> bool" where
  "permute_ok a permute =
     (case permute of None \<Rightarrow> True | Some p \<Rightarrow> valid_axes (length (nd_shape a)) p)"

definition permuted_shape :: "ndarray \<Rightarrow> int list option \<Rightarrow> nat list" where
  "permuted_shape a permute =
     (case permute of
        None \<Rightarrow> nd_shape a
      | Some p \<Rightarrow> map (\<lambda>ax. nd_shape a ! norm_axis (length (nd_shape a)) ax) p)"

text \<open>\<open>a[idx]\<close> for a multi-index within the shape.\<close>

definition nd_getitem :: "ndarray \<Rightarrow> nat list \<Rightarrow> nat" where
  "nd_getitem a idx = nd_items a ! offset (c_strides (nd_shape a)) idx"

definition valid_index :: "nat list \<Rightarrow> nat list \<Rightarrow> bool" where
  "valid_index shp idx \<longleftrightarrow> length idx = length shp \<and> list_all2 (<) idx shp"

subsection \<open>The decoder of the specification\<close>

text \<open>
  The renderer that reads the envelope is not part of the module. The decoder below
  follows the words of the specification: base64-decode the data field, inflate it,
  invert the byte shuffle when the stride is not null, reinterpret the bytes as the
  envelope's dtype, and reshape to the envelope's shape.
\<close>

fun index_of :: "'a list \<Rightarrow> 'a \<Rightarrow> nat option" where
  "index_of [] x = None"
| "index_of (y # ys) x = (if x = y then Some 0 else map_option Suc (index_of ys x))"

definition b64_group :: "char \<Rightarrow> char \<Rightarrow> char \<Rightarrow> char \<Rightarrow> byte list option" where
  "b64_group c1 c2 c3 c4 =
     (case (index_of b64_alphabet c1, index_of b64_alphabet c2) of
        (Some i1, Some i2) \<Rightarrow>
          if c3 = CHR ''='' \<and> c4 = CHR ''='' then Some [of_nat ((i1 * 64 + i2) div 16)]
          else (case index_of b64_alphabet c3 of
                  None \<Rightarrow> None
                | Some i3 \<Rightarrow>
                    if c4 = CHR ''=''
                    then (let n = (i1 * 64 + i2) * 64 + i3
                          in Some [of_nat (n div 1024), of_nat (n div 4)])
                    else (case index_of b64_alphabet c4 of
                            None \<Rightarrow> None
                          | Some i4 \<Rightarrow>
                              (let n = ((i1 * 64 + i2) * 64 + i3) * 64 + i4
                               in Some [of_nat (n div 65536), of_nat (n div 256), of_nat n])))
      | _ \<Rightarrow> None)"

fun b64decode :: "string \<Rightarrow> byte list option" where
  "b64decode [] = Some []"
| "b64decode (c1 # c2 # c3 # c4 # rest) =
     (case b64_group c1 c2 c3 c4 of
        None \<Rightarrow> None
      | Some bs \<Rightarrow> map_option ((@) bs) (b64decode rest))"
| "b64decode _ = None"

text \<open>The inverse transpose: the bytes as a grid of \<open>s\<close> rows, transposed and read out.\<close>

definition unshuffle_bytes :: "nat \<Rightarrow> byte list \<Rightarrow> byte list option" where
  "unshuffle_bytes s buf =
     (case np_reshape (np_frombuffer_byte buf) [int s, - 1] of
        Inl e \<Rightarrow> None
      | Inr grid \<Rightarrow> Some (np_tobytes (np_flatten (np_T grid))))"

definition from_le_bytes :: "byte list \<Rightarrow> nat" where
  "from_le_bytes bs = foldr (\<lambda>b n. unat b + 256 * n) bs 0"

definition np_frombuffer :: "dtype \<Rightarrow> byte list \<Rightarrow> ndarray option" where
  "np_frombuffer dt buf =
     (let w = itemsize dt in
      if length buf mod w \<noteq> 0 then None
      else Some \<lparr>nd_dtype = dt, nd_shape = [length buf div w],
                 nd_items = map (\<lambda>i. from_le_bytes (take w (drop (i * w) buf)))
                              [0..<length buf div w]\<rparr>)"

definition dtype_of_name :: "string \<rightharpoonup> dtype" where
  "dtype_of_name = map_of
     [(''float32'', np_float32), (''float64'', np_float64), (''int8'', np_int8),
      (''uint8'', np_uint8), (''int16'', np_int16), (''int32'', np_int32),
      (''int64'', np_int64)]"

definition decode_envelope :: "zlib_module \<Rightarrow> envelope \<Rightarrow> ndarray option" where
  "decode_envelope zlib e =
     (case b64decode (json_data e) of
        None \<Rightarrow> None
      | Some raw \<Rightarrow>
     (case (if json_compression e = ''zlib'' then decompress zlib raw else Some raw) of
        None \<Rightarrow> None
      | Some buf \<Rightarrow>
     (case (case json_shuffle e of None \<Rightarrow> Some buf | Some s \<Rightarrow> unshuffle_bytes s buf) of
        None \<Rightarrow> None
      | Some bytes \<Rightarrow>
     (case dtype_of_name (json_dtype e) of
        None \<Rightarrow> None
      | Some dt \<Rightarrow>
     (case np_frombuffer dt bytes of
        None \<Rightarrow> None
      | Some flat \<Rightarrow>
     (case np_reshape flat (json_shape e) of
        Inl err \<Rightarrow> None
      | Inr a \<Rightarrow> Some a))))))"

subsection \<open>The values of floating-point bit patterns\<close>

text \<open>
  IEEE 754: a sign, and a magnitude that is a rational number, an infinity or not a
  number. binary16 has 5 exponent bits (bias 15) and 10 fraction bits, binary32 has 8
  (bias 127) and 23.
\<close>

datatype fp_value = Finite bool rat | Infinity bool | NaN

definition f16_value :: "nat \<Rightarrow> fp_value" where
  "f16_value h =
     (let sgn = (h div 32768 mod 2 = 1); e = h div 1024 mod 32; m = h mod 1024
      in if e = 31 then (if m = 0 then Infinity sgn else NaN)
         else if e = 0 then Finite sgn (of_nat m / 2 ^ 24)
         else Finite sgn (of_nat (1024 + m) * 2 ^ e / 2 ^ 25))"

definition f32_value :: "nat \<Rightarrow> fp_value" where
  "f32_value f =
     (let sgn = (f div 2 ^ 31 mod 2 = 1); e = f div 2 ^ 23 mod 256; m = f mod 2 ^ 23
      in if e = 255 then (if m = 0 then Infinity sgn else NaN)
         else if e = 0 then Finite sgn (of_nat m / 2 ^ 149)
         else Finite sgn (of_nat (2 ^ 23 + m) * 2 ^ e / 2 ^ 150))"

section \<open>Properties\<close>

subsection \<open>Bytes and the byte shuffle\<close>

lemma length_le_bytes: "length (le_bytes w x) = w"
  by (simp add: le_bytes_def)

lemma length_concat_const:
  "(\<And>x. x \<in> set xs \<Longrightarrow> length (f x) = w) \<Longrightarrow> length (concat (map f xs)) = w * length xs"
  by (induction xs) auto

lemma length_np_tobytes: "length (np_tobytes a) = itemsize (nd_dtype a) * length (nd_items a)"
  by (simp add: np_tobytes_def length_concat_const length_le_bytes)

lemma le_bytes_1: "le_bytes (Suc 0) x = [of_nat x]"
  by (simp add: le_bytes_def)

lemma concat_le_bytes_1: "concat (map (le_bytes (Suc 0)) xs) = map of_nat xs"
  by (induction xs) (simp_all add: le_bytes_1)

lemma tobytes_int8:
  "nd_dtype a = np_int8 \<Longrightarrow> np_tobytes a = map of_nat (nd_items a)"
  by (simp add: np_tobytes_def concat_le_bytes_1)

lemma reshape_rows:
  assumes "0 < s" "length buf = n * s"
  shows "np_reshape (np_frombuffer_byte buf) [- 1, int s] =
           Inr \<lparr>nd_dtype = np_int8, nd_shape = [n, s], nd_items = map unat buf\<rparr>"
  using assms by (simp add: np_reshape_def np_frombuffer_byte_def nd_size_def)

lemma reshape_cols:
  assumes "0 < s" "length buf = n * s"
  shows "np_reshape (np_frombuffer_byte buf) [int s, - 1] =
           Inr \<lparr>nd_dtype = np_int8, nd_shape = [s, n], nd_items = map unat buf\<rparr>"
  using assms by (simp add: np_reshape_def np_frombuffer_byte_def nd_size_def)

lemma np_T_grid:
  "np_T \<lparr>nd_dtype = d, nd_shape = [r, c], nd_items = xs\<rparr> =
     \<lparr>nd_dtype = d, nd_shape = [c, r],
      nd_items = map (\<lambda>k. xs ! (k div r + (k mod r) * c)) [0..<c * r]\<rparr>"
  by (simp add: np_T_def transpose_axes_def c_strides_def offset_def)


lemma grid_index_less:
  fixes k r c :: nat
  assumes "k < c * r"
  shows "k div r + (k mod r) * c < r * c"
proof -
  have r: "0 < r" using assms by (cases r) auto
  have "k div r < c" using assms r by (simp add: less_mult_imp_div_less)
  moreover have "k mod r < r" using r by simp
  then have "Suc (k mod r) \<le> r" by simp
  then have "Suc (k mod r) * c \<le> r * c" by (rule mult_le_mono1)
  ultimately show ?thesis by simp
qed

lemma T_bytes:
  assumes "length buf = r * c"
  shows "np_tobytes (np_flatten (np_T \<lparr>nd_dtype = np_int8, nd_shape = [r, c], nd_items = map unat buf\<rparr>)) =
           map (\<lambda>k. buf ! (k div r + (k mod r) * c)) [0..<c * r]"
  using assms
  by (simp add: np_T_grid tobytes_int8 np_flatten_def grid_index_less)

lemma shuffle_bytes_Some:
  assumes "0 < s" "length buf = n * s"
  shows "shuffle_bytes (Some s) buf = Inr (map (\<lambda>k. buf ! (k div n + (k mod n) * s)) [0..<s * n])"
  using assms by (simp add: shuffle_bytes_def reshape_rows T_bytes)

lemma unshuffle_bytes_eq:
  assumes "0 < s" "length buf = n * s"
  shows "unshuffle_bytes s buf = Some (map (\<lambda>k. buf ! (k div s + (k mod s) * n)) [0..<n * s])"
proof -
  have "length buf = s * n" using assms by (simp add: mult.commute)
  then show ?thesis using assms(1) reshape_cols [OF assms]
    by (simp add: unshuffle_bytes_def T_bytes)
qed

lemma grid_index_inverse:
  fixes k s n :: nat
  assumes "k < n * s"
  shows "(k div s + (k mod s) * n) div n + ((k div s + (k mod s) * n) mod n) * s = k"
proof -
  have s: "0 < s" using assms by (cases s) auto
  have d: "k div s < n" using assms s by (simp add: less_mult_imp_div_less mult.commute)
  have "(k div s + (k mod s) * n) div n = k mod s" using d by simp
  moreover have "(k div s + (k mod s) * n) mod n = k div s" using d by simp
  ultimately show ?thesis by (simp add: mult.commute)
qed

lemma unshuffle_shuffle:
  assumes "0 < s" "length buf = n * s"
  shows "unshuffle_bytes s (map (\<lambda>k. buf ! (k div n + (k mod n) * s)) [0..<s * n]) = Some buf"
proof -
  let ?sh = "map (\<lambda>k. buf ! (k div n + (k mod n) * s)) [0..<s * n]"
  have len: "length ?sh = n * s" by (simp add: mult.commute)
  have "map (\<lambda>k. ?sh ! (k div s + (k mod s) * n)) [0..<n * s] = buf"
  proof (rule nth_equalityI)
    show "length (map (\<lambda>k. ?sh ! (k div s + (k mod s) * n)) [0..<n * s]) = length buf"
      using assms by simp
  next
    fix i assume "i < length (map (\<lambda>k. ?sh ! (k div s + (k mod s) * n)) [0..<n * s])"
    then have i: "i < n * s" by simp
    then have "i < s * n" by (simp add: mult.commute)
    have j: "i div s + (i mod s) * n < s * n"
      using grid_index_less [of i n s] i by (simp add: mult.commute)
    show "map (\<lambda>k. ?sh ! (k div s + (k mod s) * n)) [0..<n * s] ! i = buf ! i"
      using i j grid_index_inverse [OF i] by simp
  qed
  then show ?thesis using unshuffle_bytes_eq [OF assms(1) len] by simp
qed

subsection \<open>base64\<close>

lemma index_of_nth:
  "distinct xs \<Longrightarrow> k < length xs \<Longrightarrow> index_of xs (xs ! k) = Some k"
proof (induction xs arbitrary: k)
  case Nil
  then show ?case by simp
next
  case (Cons y ys)
  show ?case
  proof (cases k)
    case 0
    then show ?thesis by simp
  next
    case (Suc j)
    with Cons.prems have "ys ! j \<in> set ys" "y \<notin> set ys" by auto
    then have "ys ! j \<noteq> y" by auto
    with Cons Suc show ?thesis by simp
  qed
qed

lemma length_b64_alphabet: "length b64_alphabet = 64"
  by (simp add: b64_alphabet_def)

lemma distinct_b64_alphabet: "distinct b64_alphabet"
  by (simp add: b64_alphabet_def)

lemma pad_not_in_alphabet: "CHR ''='' \<notin> set b64_alphabet"
  by (simp add: b64_alphabet_def)

lemma b64_index: "k < 64 \<Longrightarrow> index_of b64_alphabet (b64_alphabet ! k) = Some k"
  by (simp add: index_of_nth distinct_b64_alphabet length_b64_alphabet)

lemma b64_char_not_pad: "k < 64 \<Longrightarrow> b64_alphabet ! k \<noteq> CHR ''=''"
  using pad_not_in_alphabet nth_mem [of k b64_alphabet]
  by (metis length_b64_alphabet)

lemma sextets_recombine1:
  fixes n :: nat
  shows "n div 262144 * 64 + n div 4096 mod 64 = n div 4096"
proof -
  have a: "n div 262144 = (n div 4096) div 64" by (simp add: div_mult2_eq)
  show ?thesis unfolding a by (rule div_mult_mod_eq)
qed

lemma sextets_recombine2:
  fixes n :: nat
  shows "(n div 262144 * 64 + n div 4096 mod 64) * 64 + n div 64 mod 64 = n div 64"
proof -
  have a: "n div 4096 = (n div 64) div 64" by (simp add: div_mult2_eq)
  show ?thesis unfolding sextets_recombine1 unfolding a by (rule div_mult_mod_eq)
qed

lemma sextets_recombine:
  fixes n :: nat
  shows "((n div 262144 * 64 + n div 4096 mod 64) * 64 + n div 64 mod 64) * 64 + n mod 64 = n"
  unfolding sextets_recombine2 by (rule div_mult_mod_eq)

lemma byte_of_nat_shift: "(of_nat (x * 256 + y) :: byte) = of_nat y"
proof -
  have "(of_nat (x * 256 + y) :: byte) = of_nat x * 256 + of_nat y" by simp
  also have "(256 :: byte) = 0" by simp
  finally show ?thesis by simp
qed

lemma b64_group_full:
  fixes a b c :: byte
  defines "n \<equiv> unat a * 65536 + unat b * 256 + unat c"
  shows "b64_group (b64_alphabet ! (n div 262144)) (b64_alphabet ! (n div 4096 mod 64))
           (b64_alphabet ! (n div 64 mod 64)) (b64_alphabet ! (n mod 64)) = Some [a, b, c]"
proof -
  have ua: "unat a < 256" and ub: "unat b < 256" and uc: "unat c < 256"
    using unsigned_less [of a, where ?'a=nat] unsigned_less [of b, where ?'a=nat] unsigned_less [of c, where ?'a=nat] by simp_all
  have n: "n < 16777216" using ua ub uc by (simp add: n_def)
  then have i1: "n div 262144 < 64" by simp
  have d1: "n div 65536 = unat a" using ub uc by (simp add: n_def)
  have d2: "n div 256 = unat a * 256 + unat b" using uc by (simp add: n_def)
  have b1: "(of_nat (n div 65536) :: byte) = a" by (simp add: d1)
  have b2: "(of_nat (n div 256) :: byte) = b" unfolding d2 by (simp only: byte_of_nat_shift) simp
  have "(of_nat n :: byte) = of_nat ((unat a * 256 + unat b) * 256 + unat c)"
    by (simp add: n_def)
  then have b3: "(of_nat n :: byte) = c" by (simp only: byte_of_nat_shift) simp
  have i2: "n div 4096 mod 64 < 64" and i3: "n div 64 mod 64 < 64" and i4: "n mod 64 < 64"
    by simp_all
  show ?thesis
    unfolding b64_group_def
    by (simp only: b64_index b64_char_not_pad i1 i2 i3 i4 prod.case option.case if_False
          simp_thms Let_def sextets_recombine b1 b2 b3)
qed

lemma b64_group_two:
  fixes a b :: byte
  defines "n \<equiv> unat a * 65536 + unat b * 256"
  shows "b64_group (b64_alphabet ! (n div 262144)) (b64_alphabet ! (n div 4096 mod 64))
           (b64_alphabet ! (n div 64 mod 64)) (CHR ''='') = Some [a, b]"
proof -
  have ua: "unat a < 256" and ub: "unat b < 256"
    using unsigned_less [of a, where ?'a=nat] unsigned_less [of b, where ?'a=nat] by simp_all
  have n: "n < 16777216" using ua ub by (simp add: n_def)
  then have i1: "n div 262144 < 64" by simp
  have i2: "n div 4096 mod 64 < 64" and i3: "n div 64 mod 64 < 64" by simp_all
  have d0: "n div 64 = unat a * 1024 + unat b * 4" by (simp add: n_def)
  have d1: "n div 64 div 1024 = unat a" using ub unfolding d0 by simp
  have d2: "n div 64 div 4 = unat a * 256 + unat b" unfolding d0 by simp
  have b1: "(of_nat (n div 64 div 1024) :: byte) = a" by (simp add: d1)
  have b2: "(of_nat (n div 64 div 4) :: byte) = b" unfolding d2 by (simp only: byte_of_nat_shift) simp
  show ?thesis
    unfolding b64_group_def
    by (simp only: b64_index b64_char_not_pad i1 i2 i3 prod.case option.case if_False if_True
          simp_thms Let_def sextets_recombine2 b1 b2)
qed

lemma b64_group_one:
  fixes a :: byte
  defines "n \<equiv> unat a * 65536"
  shows "b64_group (b64_alphabet ! (n div 262144)) (b64_alphabet ! (n div 4096 mod 64))
           (CHR ''='') (CHR ''='') = Some [a]"
proof -
  have ua: "unat a < 256"
    using unsigned_less [of a, where ?'a=nat] by simp
  have n: "n < 16777216" using ua by (simp add: n_def)
  then have i1: "n div 262144 < 64" by simp
  have i2: "n div 4096 mod 64 < 64" by simp
  have d1: "n div 4096 div 16 = unat a" by (simp add: n_def)
  have b1: "(of_nat (n div 4096 div 16) :: byte) = a" by (simp add: d1)
  show ?thesis
    unfolding b64_group_def
    by (simp only: b64_index i1 i2 prod.case option.case if_True
          simp_thms Let_def sextets_recombine1 b1)
qed

lemma b64decode_b64encode: "b64decode (b64encode bs) = Some bs"
proof (induction bs rule: b64encode.induct)
  case 1
  show ?case by simp
next
  case (2 a)
  show ?case using b64_group_one [of a] by (simp add: Let_def)
next
  case (3 a b)
  show ?case using b64_group_two [of a b] by (simp add: Let_def)
next
  case (4 a b c rest)
  then show ?case using b64_group_full [of a b c] by (simp add: Let_def)
qed

subsection \<open>The shuffle round trip\<close>

text \<open>C2: for a stride \<open>s\<close> of 2, 4 or 8 and a buffer whose length is a multiple of \<open>s\<close>,
  the shuffle step succeeds and returns the buffer read as a grid of \<open>length buf div s\<close>
  rows of \<open>s\<close> bytes, transposed and flattened in row-major order: cell \<open>(j, i)\<close> of the
  transposed grid is cell \<open>(i, j)\<close> of the grid. The inverse transpose of the shuffled
  buffer is the buffer.\<close>

theorem shuffle_roundtrip:
  assumes "s \<in> {2, 4, 8}" and "length buf mod s = 0"
  shows "\<exists>shuffled.
           shuffle_bytes (Some s) buf = Inr shuffled \<and>
           length shuffled = length buf \<and>
           (\<forall>i < length buf div s. \<forall>j < s.
              shuffled ! (j * (length buf div s) + i) = buf ! (i * s + j)) \<and>
           unshuffle_bytes s shuffled = Some buf"
proof -
  let ?n = "length buf div s"
  let ?sh = "map (\<lambda>k. buf ! (k div ?n + (k mod ?n) * s)) [0..<s * ?n]"
  have s: "0 < s" using assms(1) by auto
  have len: "length buf = ?n * s" using assms(2) by auto
  have enc: "shuffle_bytes (Some s) buf = Inr ?sh"
    by (rule shuffle_bytes_Some [OF s len])
  have l: "length ?sh = length buf" using len by (simp add: mult.commute)
  have cells: "?sh ! (j * ?n + i) = buf ! (i * s + j)" if "i < ?n" "j < s" for i j
  proof -
    have "j * ?n + i < s * ?n"
    proof -
      have "Suc j \<le> s" using that by simp
      then have "Suc j * ?n \<le> s * ?n" by (rule mult_le_mono1)
      then show ?thesis using that by simp
    qed
    then show ?thesis using that by (simp add: add.commute)
  qed
  have dec: "unshuffle_bytes s ?sh = Some buf"
    by (rule unshuffle_shuffle [OF s len])
  show ?thesis using enc l cells dec by blast
qed

theorem shuffle_roundtrip_witness:
  "(4::nat) \<in> {2, 4, 8} \<and> length [1, 2, 3, 4, 5, 6, 7, 8 :: byte] mod 4 = 0 \<and>
   shuffle_bytes (Some 4) [1, 2, 3, 4, 5, 6, 7, 8] = Inr [1, 5, 2, 6, 3, 7, 4, 8] \<and>
   unshuffle_bytes 4 [1, 5, 2, 6, 3, 7, 4, 8] = Some [1, 2, 3, 4, 5, 6, 7, 8]"
proof -
  have h1: "(4::nat) \<in> {2, 4, 8}" by simp
  have h2: "length [1, 2, 3, 4, 5, 6, 7, 8 :: byte] mod 4 = 0" by simp
  have sh: "shuffle_bytes (Some 4) [1, 2, 3, 4, 5, 6, 7, 8] = Inr [1, 5, 2, 6, 3, 7, 4, 8]"
    by (simp add: shuffle_bytes_Some [of 4 _ 2] upt_rec)
  from shuffle_roundtrip [OF h1 h2] sh show ?thesis by simp
qed

subsection \<open>A tensor that is None\<close>

text \<open>C10: when the input tensor is None, \<open>tensor_to_json\<close> returns None, whatever the
  permutation, the loaded modules and zlib are: nothing is validated and nothing raised.\<close>

theorem tensor_to_json_None:
  "tensor_to_json zlib sys_modules None permute = Inr None"
  by (simp add: tensor_to_json_def)

subsection \<open>The normalizer\<close>

text \<open>C6: an input that is neither a NumPy array nor an instance of the tensor type of a
  loaded library makes \<open>tensor_to_numpy\<close> raise the \<open>ValueError\<close> the specification calls
  UnsupportedInputError. A NumPy array is returned as it is, and a tensor of a loaded
  library that its conversion call turns into a NumPy array is returned converted.\<close>

theorem tensor_to_numpy_raises:
  "(\<not> is_ndarray x \<and> \<not> isinstance_loaded sys_modules x \<longrightarrow>
      tensor_to_numpy sys_modules x = Inl UnsupportedInputError) \<and>
   tensor_to_numpy sys_modules (NdArray a) = Inr a \<and>
   (''torch'' \<in> sys_modules \<longrightarrow> tensor_to_numpy sys_modules (TorchTensor (NdArray a)) = Inr a) \<and>
   (''mlx.core'' \<in> sys_modules \<longrightarrow> tensor_to_numpy sys_modules (MlxArray (NdArray a)) = Inr a) \<and>
   (''tensorflow'' \<in> sys_modules \<longrightarrow> tensor_to_numpy sys_modules (TfTensor (NdArray a)) = Inr a)"
  by (cases x) (simp_all add: tensor_to_numpy_def is_ndarray_def isinstance_loaded_def Let_def)

theorem tensor_to_numpy_raises_witness:
  "\<not> is_ndarray (TorchTensor (NdArray \<lparr>nd_dtype = np_int8, nd_shape = [1], nd_items = [7]\<rparr>)) \<and>
   \<not> isinstance_loaded {''tensorflow''}
       (TorchTensor (NdArray \<lparr>nd_dtype = np_int8, nd_shape = [1], nd_items = [7]\<rparr>)) \<and>
   tensor_to_numpy {''tensorflow''}
       (TorchTensor (NdArray \<lparr>nd_dtype = np_int8, nd_shape = [1], nd_items = [7]\<rparr>)) =
     Inl UnsupportedInputError \<and>
   ''torch'' \<in> {''torch'', ''tensorflow''} \<and>
   tensor_to_numpy {''torch'', ''tensorflow''}
       (TorchTensor (NdArray \<lparr>nd_dtype = np_int8, nd_shape = [1], nd_items = [7]\<rparr>)) =
     Inr \<lparr>nd_dtype = np_int8, nd_shape = [1], nd_items = [7]\<rparr>"
  using tensor_to_numpy_raises
      [of "TorchTensor (NdArray \<lparr>nd_dtype = np_int8, nd_shape = [1], nd_items = [7]\<rparr>)"
          "{''tensorflow''}"]
    tensor_to_numpy_raises
      [of OtherObject "{''torch'', ''tensorflow''}"
          "\<lparr>nd_dtype = np_int8, nd_shape = [1], nd_items = [7]\<rparr>"]
  by (simp add: is_ndarray_def isinstance_loaded_def)

subsection \<open>The permutation of the metadata\<close>

lemma permute_items_nonneg:
  "list_all (\<lambda>i. 0 \<le> i) permute \<Longrightarrow>
   permute_items array permute =
     Inr (map (\<lambda>i. if i < int (length array) then Some (array ! nat i) else None) permute)"
  by (induction permute) (simp_all add: list_getitem_def)

text \<open>C7: for a metadata list that is not None and a permutation (a list of axis indices,
  none of them negative), \<open>apply_permute\<close> does not raise, whatever the length of the list
  is, shorter than the permutation or not: a position whose index lies within the list
  holds the entry at that index, and every position whose index lies outside the list
  holds None.\<close>

theorem apply_permute_pads:
  assumes "list_all (\<lambda>i. 0 \<le> i) permute"
  shows "apply_permute (Some array) permute =
           Inr (Some (map (\<lambda>i. if i < int (length array) then Some (array ! nat i) else None)
                   permute))"
  using assms by (simp add: apply_permute_def permute_items_nonneg)

theorem apply_permute_pads_witness:
  "list_all (\<lambda>i. 0 \<le> i) [2, 0, 1 :: int] \<and>
   apply_permute (Some [''x'']) [2, 0, 1] = Inr (Some [None, Some ''x'', None])"
proof -
  have h: "list_all (\<lambda>i. 0 \<le> i) [2, 0, 1 :: int]" by simp
  from apply_permute_pads [OF h, of "[''x'']"] h show ?thesis by simp
qed

text \<open>A negative entry is not an axis index of a permutation as the specification defines
  one. The test \<open>i < len(array)\<close> has no lower bound, so such an entry reaches the lookup
  \<open>array[i]\<close>, which Python counts from the end of the list and which raises on a list
  that is too short.\<close>

lemma apply_permute_negative_entry:
  "apply_permute (Some ([] :: string list)) [- 1] = Inl IndexError"
  by (simp add: apply_permute_def list_getitem_def)

subsection \<open>Transposition\<close>

lemma check_axes_valid:
  assumes "list_all (\<lambda>ax. - int n \<le> ax \<and> ax < int n) axes"
    and "distinct (map (norm_axis n) axes)"
    and "set (map (norm_axis n) axes) \<inter> set seen = {}"
  shows "check_axes n seen axes = Inr (rev seen @ map (norm_axis n) axes)"
  using assms
proof (induction axes arbitrary: seen)
  case Nil
  then show ?case by simp
next
  case (Cons ax rest)
  have k: "nat (if ax < 0 then ax + int n else ax) = norm_axis n ax"
    by (simp add: norm_axis_def)
  have fresh: "norm_axis n ax \<notin> set seen" using Cons.prems(3) by auto
  have "check_axes n (norm_axis n ax # seen) rest =
          Inr (rev (norm_axis n ax # seen) @ map (norm_axis n) rest)"
    using Cons.prems by (intro Cons.IH) auto
  then show ?case using Cons.prems(1) fresh
    by (simp add: k Let_def del: norm_axis_def)
qed

lemma np_transpose_valid:
  assumes "valid_axes (length (nd_shape a)) axes"
  shows "np_transpose a axes = Inr (transpose_axes a (map (norm_axis (length (nd_shape a))) axes))"
  using assms check_axes_valid [of "length (nd_shape a)" axes "[]"]
  by (simp add: np_transpose_def valid_axes_def)

lemma permute_input_valid:
  assumes "valid_axes (length (nd_shape a)) axes"
  shows "permute_input a (Some axes) =
           Inr (transpose_axes a (map (norm_axis (length (nd_shape a))) axes))"
  using assms np_transpose_valid [OF assms] by (simp add: permute_input_def valid_axes_def)

lemma permute_input_mismatch:
  "length axes \<noteq> length (nd_shape a) \<Longrightarrow> permute_input a (Some axes) = Inl ShapeMismatchError"
  by (simp add: permute_input_def)

lemma nd_shape_transpose_axes: "nd_shape (transpose_axes a q) = map (\<lambda>p. nd_shape a ! p) q"
  by (simp add: transpose_axes_def Let_def)

lemma nd_dtype_transpose_axes: "nd_dtype (transpose_axes a q) = nd_dtype a"
  by (simp add: transpose_axes_def Let_def)

lemma c_strides_Cons: "c_strides (d # ds) = prod_list ds # c_strides ds"
proof -
  have "[0..<Suc (length ds)] = 0 # map Suc [0..<length ds]"
    by (simp add: upt_conv_Cons map_Suc_upt del: upt_Suc)
  then show ?thesis by (simp add: c_strides_def comp_def del: upt_Suc)
qed

lemma c_strides_Nil: "c_strides [] = []"
  by (simp add: c_strides_def)

lemma length_c_strides: "length (c_strides shp) = length shp"
  by (simp add: c_strides_def)

lemma offset_Cons: "offset (s # ss) (i # is) = i * s + offset ss is"
  by (simp add: offset_def)

lemma offset_less:
  "valid_index shp idx \<Longrightarrow> offset (c_strides shp) idx < prod_list shp"
proof (induction shp arbitrary: idx)
  case Nil
  then show ?case by (simp add: valid_index_def offset_def c_strides_Nil)
next
  case (Cons d ds)
  then obtain i "is" where idx: "idx = i # is" by (cases idx) (auto simp: valid_index_def)
  with Cons.prems have i: "i < d" and v: "valid_index ds is" by (auto simp: valid_index_def)
  have r: "offset (c_strides ds) is < prod_list ds" by (rule Cons.IH [OF v])
  have "Suc i \<le> d" using i by simp
  then have "Suc i * prod_list ds \<le> d * prod_list ds" by (rule mult_le_mono1)
  then show ?case using r by (simp add: idx c_strides_Cons offset_Cons)
qed

lemma unravel_offset:
  "valid_index shp idx \<Longrightarrow> unravel shp (offset (c_strides shp) idx) = idx"
proof (induction shp arbitrary: idx)
  case Nil
  then show ?case by (simp add: valid_index_def)
next
  case (Cons d ds)
  then obtain i "is" where idx: "idx = i # is" by (cases idx) (auto simp: valid_index_def)
  with Cons.prems have v: "valid_index ds is" by (auto simp: valid_index_def)
  have r: "offset (c_strides ds) is < prod_list ds" by (rule offset_less [OF v])
  show ?case using r Cons.IH [OF v] by (simp add: idx c_strides_Cons offset_Cons)
qed


lemma perm_set:
  assumes "distinct q" "length q = n" "\<forall>j \<in> set q. j < n"
  shows "set q = {0..<n}"
proof -
  have sub: "set q \<subseteq> {0..<n}" using assms(3) by auto
  have "card (set q) = n" using assms(1,2) by (simp add: distinct_card)
  then have "card (set q) = card {0..<n}" by simp
  with sub show ?thesis by (simp add: card_subset_eq)
qed

lemma map2_same: "map2 h (map f q) (map g q) = map (\<lambda>p. h (f p) (g p)) q"
  by (induction q) simp_all

lemma offset_permuted:
  assumes "distinct q" "length q = n" "\<forall>j \<in> set q. j < n"
    and "length strides = n" "length idx = n"
  shows "offset (map (\<lambda>p. strides ! p) q) (map (\<lambda>p. idx ! p) q) = offset strides idx"
proof -
  have "offset (map (\<lambda>p. strides ! p) q) (map (\<lambda>p. idx ! p) q) =
          sum_list (map (\<lambda>p. idx ! p * strides ! p) q)"
    by (simp add: offset_def map2_same)
  also have "\<dots> = sum (\<lambda>p. idx ! p * strides ! p) (set q)"
    using assms(1) by (simp add: sum_list_distinct_conv_sum_set)
  also have "\<dots> = sum (\<lambda>p. idx ! p * strides ! p) {0..<n}"
    using perm_set [OF assms(1-3)] by simp
  also have "\<dots> = sum_list (map (\<lambda>p. idx ! p * strides ! p) [0..<n])"
    by (simp add: sum_list_distinct_conv_sum_set)
  also have "map (\<lambda>p. idx ! p * strides ! p) [0..<n] = map2 (*) idx strides"
    using assms(4,5) by (intro nth_equalityI) simp_all
  finally show ?thesis by (simp add: offset_def)
qed

lemma norm_axis_less:
  "- int n \<le> ax \<Longrightarrow> ax < int n \<Longrightarrow> norm_axis n ax < n"
  by (auto simp: norm_axis_def)

lemma valid_axes_perm:
  assumes "valid_axes n axes"
  shows "distinct (map (norm_axis n) axes)" "length (map (norm_axis n) axes) = n"
    "\<forall>j \<in> set (map (norm_axis n) axes). j < n"
  using assms by (auto simp: valid_axes_def list_all_iff norm_axis_less)

lemma transpose_axes_getitem:
  assumes q: "distinct q" "length q = length (nd_shape a)" "\<forall>j \<in> set q. j < length (nd_shape a)"
    and idx: "valid_index (nd_shape a) idx"
  shows "nd_getitem (transpose_axes a q) (map (\<lambda>p. idx ! p) q) = nd_getitem a idx"
proof -
  let ?shp = "map (\<lambda>p. nd_shape a ! p) q"
  let ?idx = "map (\<lambda>p. idx ! p) q"
  let ?str = "map (\<lambda>p. c_strides (nd_shape a) ! p) q"
  have len: "length idx = length (nd_shape a)" using idx by (simp add: valid_index_def)
  have cell: "idx ! p < nd_shape a ! p" if "p < length (nd_shape a)" for p
    using idx that by (auto simp: valid_index_def list_all2_conv_all_nth)
  have v: "valid_index ?shp ?idx"
    using q(3) cell by (auto simp: valid_index_def list_all2_conv_all_nth)
  have lt: "offset (c_strides ?shp) ?idx < prod_list ?shp" by (rule offset_less [OF v])
  have un: "unravel ?shp (offset (c_strides ?shp) ?idx) = ?idx" by (rule unravel_offset [OF v])
  have off: "offset ?str ?idx = offset (c_strides (nd_shape a)) idx"
    by (rule offset_permuted [OF q]) (simp_all add: length_c_strides len)
  show ?thesis using lt by (simp add: nd_getitem_def transpose_axes_def Let_def un off)
qed

subsection \<open>The steps of the encoder\<close>

lemma dtype_mapping_compression:
  "dtype_mapping d = Some (t, name, c, sh) \<Longrightarrow> c = ''zlib''"
  by (cases d) (simp_all add: dtype_mapping_def)

lemma dtype_mapping_name:
  "dtype_mapping d = Some (t, name, c, sh) \<Longrightarrow> name = dtype_str t \<and> dtype_of_name name = Some t"
  by (cases d) (auto simp: dtype_mapping_def dtype_of_name_def)

lemma dtype_mapping_stride:
  "dtype_mapping d = Some (t, name, c, sh) \<Longrightarrow>
     sh = None \<and> itemsize t = 1 \<or> sh = Some (itemsize t)"
  by (cases d) (auto simp: dtype_mapping_def)

lemma dtype_mapping_target:
  "dtype_mapping d = Some (t, name, c, sh) \<Longrightarrow> t = d \<or> d = np_float16 \<and> t = np_float32"
  by (cases d) (auto simp: dtype_mapping_def)

lemma itemsize_pos: "0 < itemsize t"
  by (cases t) simp_all

lemma length_encoded_bytes:
  "length (np_tobytes (np_flatten (np_astype a t))) = length (nd_items a) * itemsize t"
  by (simp add: length_np_tobytes np_flatten_def np_astype_def)

lemma shuffle_bytes_mapping:
  assumes "dtype_mapping d = Some (t, name, c, sh)"
  shows "\<exists>bd. shuffle_bytes sh (np_tobytes (np_flatten (np_astype a t))) = Inr bd"
proof (cases sh)
  case None
  then show ?thesis by (simp add: shuffle_bytes_def)
next
  case (Some s)
  with dtype_mapping_stride [OF assms] have s: "s = itemsize t" by simp
  show ?thesis unfolding Some s
    using shuffle_bytes_Some [OF itemsize_pos length_encoded_bytes] by blast
qed

lemma tensor_to_json_encode:
  assumes "tensor_to_numpy sys_modules x = Inr a0"
    and "permute_input a0 permute = Inr a"
    and "dtype_mapping (nd_dtype a) = Some (t, name, c, sh)"
    and "shuffle_bytes sh (np_tobytes (np_flatten (np_astype a t))) = Inr bd"
  shows "tensor_to_json zlib sys_modules (Some x) permute =
           Inr (Some \<lparr>json_shape = map int (nd_shape a), json_compression = ''zlib'',
                      json_shuffle = sh, json_dtype = name,
                      json_data = b64encode (compress zlib Z_BEST_SPEED bd)\<rparr>)"
  using assms dtype_mapping_compression [OF assms(3)] by (simp add: tensor_to_json_def)

lemma tensor_to_json_unsupported:
  assumes "tensor_to_numpy sys_modules x = Inr a0"
    and "permute_input a0 permute = Inr a"
    and "dtype_mapping (nd_dtype a) = None"
  shows "tensor_to_json zlib sys_modules (Some x) permute = Inl (UnsupportedDtypeError (nd_dtype a))"
  using assms by (simp add: tensor_to_json_def)

lemma tensor_to_json_mismatch:
  assumes "tensor_to_numpy sys_modules x = Inr a0"
    and "length p \<noteq> length (nd_shape a0)"
  shows "tensor_to_json zlib sys_modules (Some x) (Some p) = Inl ShapeMismatchError"
  using assms by (simp add: tensor_to_json_def permute_input_def)

lemma tensor_to_numpy_NdArray: "tensor_to_numpy sys_modules (NdArray a) = Inr a"
  by (simp add: tensor_to_numpy_def Let_def)

subsection \<open>The envelope of an array\<close>

lemma permute_input_ok:
  assumes "permute_ok a permute"
  shows "\<exists>a'. permute_input a permute = Inr a' \<and> nd_shape a' = permuted_shape a permute \<and>
              nd_dtype a' = nd_dtype a"
proof (cases permute)
  case None
  then show ?thesis by (simp add: permute_input_def permuted_shape_def)
next
  case (Some p)
  with assms have v: "valid_axes (length (nd_shape a)) p" by (simp add: permute_ok_def)
  show ?thesis unfolding Some
    by (simp add: permute_input_valid [OF v] nd_shape_transpose_axes nd_dtype_transpose_axes
          permuted_shape_def comp_def)
qed

lemma tensor_to_json_supported:
  assumes "tensor_to_numpy sys_modules x = Inr a0"
    and "permute_input a0 permute = Inr a"
    and "dtype_mapping (nd_dtype a) = Some (t, name, c, sh)"
  shows "\<exists>bd. tensor_to_json zlib sys_modules (Some x) permute =
           Inr (Some \<lparr>json_shape = map int (nd_shape a), json_compression = ''zlib'',
                      json_shuffle = sh, json_dtype = name,
                      json_data = b64encode (compress zlib Z_BEST_SPEED bd)\<rparr>)"
proof -
  obtain bd where "shuffle_bytes sh (np_tobytes (np_flatten (np_astype a t))) = Inr bd"
    using shuffle_bytes_mapping [OF assms(3)] by blast
  from tensor_to_json_encode [OF assms this] show ?thesis by blast
qed

text \<open>C3: for an input that normalises to an array with a supported element type, and a
  permutation that is absent or valid, \<open>tensor_to_json\<close> returns an envelope whose shape
  field is the list of the dimensions of the array after the permutation.\<close>

theorem envelope_shape:
  assumes "tensor_to_numpy sys_modules x = Inr a"
    and "dtype_mapping (nd_dtype a) \<noteq> None"
    and "permute_ok a permute"
  shows "\<exists>e. tensor_to_json zlib sys_modules (Some x) permute = Inr (Some e) \<and>
             json_shape e = map int (permuted_shape a permute)"
proof -
  obtain a' where p: "permute_input a permute = Inr a'"
    and s: "nd_shape a' = permuted_shape a permute" and d: "nd_dtype a' = nd_dtype a"
    using permute_input_ok [OF assms(3)] by blast
  obtain t name c sh where m: "dtype_mapping (nd_dtype a') = Some (t, name, c, sh)"
    using assms(2) d by (cases "dtype_mapping (nd_dtype a)") auto
  from tensor_to_json_supported [OF assms(1) p m, of zlib] s show ?thesis by auto
qed

theorem envelope_shape_witness:
  "tensor_to_numpy {} (NdArray \<lparr>nd_dtype = np_float32, nd_shape = [2, 3],
       nd_items = [1, 2, 3, 4, 5, 6]\<rparr>) =
     Inr \<lparr>nd_dtype = np_float32, nd_shape = [2, 3], nd_items = [1, 2, 3, 4, 5, 6]\<rparr> \<and>
   dtype_mapping np_float32 \<noteq> None \<and>
   permute_ok \<lparr>nd_dtype = np_float32, nd_shape = [2, 3], nd_items = [1, 2, 3, 4, 5, 6]\<rparr>
     (Some [- 1, 0]) \<and>
   (\<exists>e. tensor_to_json \<lparr>compress = (\<lambda>level buf. buf), decompress = Some\<rparr> {}
           (Some (NdArray \<lparr>nd_dtype = np_float32, nd_shape = [2, 3],
              nd_items = [1, 2, 3, 4, 5, 6]\<rparr>)) (Some [- 1, 0]) = Inr (Some e) \<and>
        json_shape e = [3, 2])"
proof -
  let ?a = "\<lparr>nd_dtype = np_float32, nd_shape = [2, 3], nd_items = [1, 2, 3, 4, 5, 6]\<rparr>"
  have h1: "tensor_to_numpy {} (NdArray ?a) = Inr ?a" by (rule tensor_to_numpy_NdArray)
  have h2: "dtype_mapping (nd_dtype ?a) \<noteq> None" by (simp add: dtype_mapping_def)
  have h3: "permute_ok ?a (Some [- 1, 0])"
    by (simp add: permute_ok_def valid_axes_def norm_axis_def)
  have s: "permuted_shape ?a (Some [- 1, 0]) = [3, 2]"
    by (simp add: permuted_shape_def norm_axis_def)
  from envelope_shape [OF h1 h2 h3] h1 h2 h3 s show ?thesis by simp
qed

lemma dtype_mapping_dom:
  "dtype_mapping d \<noteq> None \<longleftrightarrow>
     d \<in> {np_float16, np_float32, np_float64, np_int8, np_uint8, np_int16, np_int32, np_int64}"
  by (cases d) (simp_all add: dtype_mapping_def)

text \<open>C4: for an input that normalises to an array, and a permutation that is absent or
  valid for it, \<open>tensor_to_json\<close> raises the \<open>ValueError\<close> the specification calls
  UnsupportedDtypeError, and returns no envelope, when the element type is not a key of
  \<open>dtype_mapping\<close> (complex64 is not); when it is one of the eight keys, nothing is raised
  and an envelope is returned.\<close>

theorem unsupported_dtype:
  assumes "tensor_to_numpy sys_modules x = Inr a"
    and "permute_ok a permute"
  shows "(dtype_mapping (nd_dtype a) = None \<longrightarrow>
            tensor_to_json zlib sys_modules (Some x) permute =
              Inl (UnsupportedDtypeError (nd_dtype a))) \<and>
         (dtype_mapping (nd_dtype a) \<noteq> None \<longrightarrow>
            (\<exists>e. tensor_to_json zlib sys_modules (Some x) permute = Inr (Some e))) \<and>
         dtype_mapping np_complex64 = None \<and>
         (dtype_mapping (nd_dtype a) \<noteq> None \<longleftrightarrow>
            nd_dtype a \<in> {np_float16, np_float32, np_float64, np_int8, np_uint8,
                           np_int16, np_int32, np_int64})"
proof -
  obtain a' where p: "permute_input a permute = Inr a'" and d: "nd_dtype a' = nd_dtype a"
    using permute_input_ok [OF assms(2)] by blast
  have miss: "tensor_to_json zlib sys_modules (Some x) permute =
                Inl (UnsupportedDtypeError (nd_dtype a))"
    if "dtype_mapping (nd_dtype a) = None"
    using tensor_to_json_unsupported [OF assms(1) p, of zlib] that d by simp
  have hit: "\<exists>e. tensor_to_json zlib sys_modules (Some x) permute = Inr (Some e)"
    if h: "dtype_mapping (nd_dtype a) \<noteq> None"
  proof -
    obtain t name c sh where m: "dtype_mapping (nd_dtype a') = Some (t, name, c, sh)"
      using h d by (cases "dtype_mapping (nd_dtype a)") auto
    from tensor_to_json_supported [OF assms(1) p m, of zlib] show ?thesis by blast
  qed
  have c64: "dtype_mapping np_complex64 = None" by (simp add: dtype_mapping_def)
  show ?thesis using miss hit c64 dtype_mapping_dom [of "nd_dtype a"] by blast
qed

theorem unsupported_dtype_witness:
  "tensor_to_numpy {} (NdArray \<lparr>nd_dtype = np_complex64, nd_shape = [2], nd_items = [1, 2]\<rparr>) =
     Inr \<lparr>nd_dtype = np_complex64, nd_shape = [2], nd_items = [1, 2]\<rparr> \<and>
   permute_ok \<lparr>nd_dtype = np_complex64, nd_shape = [2], nd_items = [1, 2]\<rparr> (Some [0]) \<and>
   dtype_mapping np_complex64 = None \<and>
   tensor_to_json \<lparr>compress = (\<lambda>level buf. buf), decompress = Some\<rparr> {}
       (Some (NdArray \<lparr>nd_dtype = np_complex64, nd_shape = [2], nd_items = [1, 2]\<rparr>))
       (Some [0]) =
     Inl (ValueError ''unsupported dtype complex64'')"
proof -
  let ?a = "\<lparr>nd_dtype = np_complex64, nd_shape = [2], nd_items = [1, 2]\<rparr>"
  have h1: "tensor_to_numpy {} (NdArray ?a) = Inr ?a" by (rule tensor_to_numpy_NdArray)
  have h2: "permute_ok ?a (Some [0])"
    by (simp add: permute_ok_def valid_axes_def norm_axis_def)
  from unsupported_dtype [OF h1 h2] h1 h2 show ?thesis
    by (simp add: UnsupportedDtypeError_def)
qed

text \<open>C5: for an input that normalises to an array and a permutation whose length is not
  the number of dimensions of the array, \<open>tensor_to_json\<close> raises the \<open>ValueError\<close> the
  specification calls ShapeMismatchError and returns no envelope. For valid axes of the
  right length, the array is transposed: dimension \<open>j\<close> of the result is dimension
  \<open>permute[j]\<close> of the array, the element at index \<open>(i[permute[0]], i[permute[1]], ...)\<close> of
  the result is the element at index \<open>i\<close> of the array, and the envelope is the one of
  the transposed array.\<close>

theorem permutation_length:
  assumes "tensor_to_numpy sys_modules x = Inr a"
  shows "(length p \<noteq> length (nd_shape a) \<longrightarrow>
            tensor_to_json zlib sys_modules (Some x) (Some p) = Inl ShapeMismatchError) \<and>
         (valid_axes (length (nd_shape a)) p \<longrightarrow>
            (\<exists>a'. permute_input a (Some p) = Inr a' \<and>
                nd_shape a' = map (\<lambda>ax. nd_shape a ! norm_axis (length (nd_shape a)) ax) p \<and>
                (\<forall>idx. valid_index (nd_shape a) idx \<longrightarrow>
                   nd_getitem a' (map (\<lambda>ax. idx ! norm_axis (length (nd_shape a)) ax) p) =
                     nd_getitem a idx) \<and>
                tensor_to_json zlib sys_modules (Some x) (Some p) =
                  tensor_to_json zlib sys_modules (Some (NdArray a')) None))"
proof (intro conjI impI)
  assume "length p \<noteq> length (nd_shape a)"
  then show "tensor_to_json zlib sys_modules (Some x) (Some p) = Inl ShapeMismatchError"
    by (rule tensor_to_json_mismatch [OF assms])
next
  assume v: "valid_axes (length (nd_shape a)) p"
  let ?n = "length (nd_shape a)"
  let ?q = "map (norm_axis ?n) p"
  let ?a' = "transpose_axes a ?q"
  have p: "permute_input a (Some p) = Inr ?a'" by (rule permute_input_valid [OF v])
  have s: "nd_shape ?a' = map (\<lambda>ax. nd_shape a ! norm_axis ?n ax) p"
    by (simp add: nd_shape_transpose_axes comp_def)
  have g: "nd_getitem ?a' (map (\<lambda>ax. idx ! norm_axis ?n ax) p) = nd_getitem a idx"
    if "valid_index (nd_shape a) idx" for idx
    using transpose_axes_getitem [OF valid_axes_perm [OF v] that] by (simp add: comp_def)
  have e: "tensor_to_json zlib sys_modules (Some x) (Some p) =
             tensor_to_json zlib sys_modules (Some (NdArray ?a')) None"
    using assms p by (simp add: tensor_to_json_def tensor_to_numpy_NdArray permute_input_def)
  show "\<exists>a'. permute_input a (Some p) = Inr a' \<and>
          nd_shape a' = map (\<lambda>ax. nd_shape a ! norm_axis ?n ax) p \<and>
          (\<forall>idx. valid_index (nd_shape a) idx \<longrightarrow>
             nd_getitem a' (map (\<lambda>ax. idx ! norm_axis ?n ax) p) = nd_getitem a idx) \<and>
          tensor_to_json zlib sys_modules (Some x) (Some p) =
            tensor_to_json zlib sys_modules (Some (NdArray a')) None"
    using p s g e by blast
qed


theorem permutation_length_witness:
  "tensor_to_numpy {} (NdArray \<lparr>nd_dtype = np_int8, nd_shape = [1, 2, 3],
       nd_items = [0, 1, 2, 3, 4, 5]\<rparr>) =
     Inr \<lparr>nd_dtype = np_int8, nd_shape = [1, 2, 3], nd_items = [0, 1, 2, 3, 4, 5]\<rparr> \<and>
   length [1, 0 :: int] \<noteq>
     length (nd_shape \<lparr>nd_dtype = np_int8, nd_shape = [1, 2, 3], nd_items = [0, 1, 2, 3, 4, 5]\<rparr>) \<and>
   tensor_to_json \<lparr>compress = (\<lambda>level buf. buf), decompress = Some\<rparr> {}
       (Some (NdArray \<lparr>nd_dtype = np_int8, nd_shape = [1, 2, 3],
          nd_items = [0, 1, 2, 3, 4, 5]\<rparr>)) (Some [1, 0]) =
     Inl (ValueError ''permute must be the same length as the tensor's shape'') \<and>
   valid_axes 3 [2, 0, 1] \<and>
   (\<exists>a'. permute_input \<lparr>nd_dtype = np_int8, nd_shape = [1, 2, 3],
            nd_items = [0, 1, 2, 3, 4, 5]\<rparr> (Some [2, 0, 1]) = Inr a' \<and>
         nd_shape a' = [3, 1, 2])"
proof -
  let ?a = "\<lparr>nd_dtype = np_int8, nd_shape = [1, 2, 3], nd_items = [0, 1, 2, 3, 4, 5]\<rparr>"
  let ?z = "\<lparr>compress = (\<lambda>level buf. buf), decompress = Some\<rparr>"
  have h1: "tensor_to_numpy {} (NdArray ?a) = Inr ?a" by (rule tensor_to_numpy_NdArray)
  have h2: "length [1, 0 :: int] \<noteq> length (nd_shape ?a)" by simp
  have h3: "valid_axes (length (nd_shape ?a)) [2, 0, 1]"
    by (simp add: valid_axes_def norm_axis_def)
  have h3': "valid_axes 3 [2, 0, 1]" by (simp add: valid_axes_def norm_axis_def)
  from permutation_length [OF h1, of "[1, 0]" ?z] h2
  have r1: "tensor_to_json ?z {} (Some (NdArray ?a)) (Some [1, 0]) = Inl ShapeMismatchError"
    by blast
  from permutation_length [OF h1, of "[2, 0, 1]" ?z] h3
  obtain a' where p: "permute_input ?a (Some [2, 0, 1]) = Inr a'"
    and s: "nd_shape a' =
              map (\<lambda>ax. nd_shape ?a ! norm_axis (length (nd_shape ?a)) ax) [2, 0, 1]"
    by blast
  have "nd_shape a' = [3, 1, 2]" unfolding s by (simp add: norm_axis_def)
  with p have r2: "\<exists>a'. permute_input ?a (Some [2, 0, 1]) = Inr a' \<and> nd_shape a' = [3, 1, 2]"
    by blast
  from h1 h2 h3' r1 r2 show ?thesis by (simp add: ShapeMismatchError_def)
qed

lemma cast_item_same: "cast_item d d = (\<lambda>x. x)"
  by (rule ext) (simp add: cast_item_def)

lemma np_astype_same: "np_astype a (nd_dtype a) = a"
  by (simp add: np_astype_def cast_item_same)

lemma tobytes_one_byte:
  "itemsize (nd_dtype a) = 1 \<Longrightarrow> np_tobytes a = map of_nat (nd_items a)"
  by (simp add: np_tobytes_def concat_le_bytes_1)

text \<open>C8: for an input whose array, after the permutation, has element type int8 or uint8,
  the envelope has \<open>shuffle\<close> null and \<open>compression\<close> \<open>zlib\<close>, and its \<open>data\<close> is the base64
  text of the zlib-compressed bytes of the elements in row-major order, one byte each,
  in the order of the elements: no shuffle is applied (without a stride the shuffle
  step returns the buffer it is given).\<close>

theorem eight_bit_no_shuffle:
  assumes "tensor_to_numpy sys_modules x = Inr a0"
    and "permute_input a0 permute = Inr a"
    and "nd_dtype a = np_int8 \<or> nd_dtype a = np_uint8"
  shows "tensor_to_json zlib sys_modules (Some x) permute =
           Inr (Some \<lparr>json_shape = map int (nd_shape a), json_compression = ''zlib'',
                      json_shuffle = None, json_dtype = dtype_str (nd_dtype a),
                      json_data = b64encode (compress zlib Z_BEST_SPEED
                                     (np_tobytes (np_flatten a)))\<rparr>) \<and>
         np_tobytes (np_flatten a) = map of_nat (nd_items a) \<and>
         shuffle_bytes None (np_tobytes (np_flatten a)) = Inr (np_tobytes (np_flatten a))"
proof -
  have m: "dtype_mapping (nd_dtype a) =
             Some (nd_dtype a, dtype_str (nd_dtype a), ''zlib'', None)"
    using assms(3) by (auto simp: dtype_mapping_def)
  have sh: "shuffle_bytes None (np_tobytes (np_flatten (np_astype a (nd_dtype a)))) =
              Inr (np_tobytes (np_flatten a))"
    by (simp add: shuffle_bytes_def np_astype_same)
  have one: "itemsize (nd_dtype (np_flatten a)) = 1"
    using assms(3) by (auto simp: np_flatten_def)
  have b: "np_tobytes (np_flatten a) = map of_nat (nd_items a)"
    using tobytes_one_byte [OF one] by (simp add: np_flatten_def)
  from tensor_to_json_encode [OF assms(1,2) m sh, of zlib] b show ?thesis
    by (simp add: shuffle_bytes_def)
qed

theorem eight_bit_no_shuffle_witness:
  "tensor_to_numpy {} (NdArray \<lparr>nd_dtype = np_uint8, nd_shape = [2, 2],
       nd_items = [1, 2, 3, 255]\<rparr>) =
     Inr \<lparr>nd_dtype = np_uint8, nd_shape = [2, 2], nd_items = [1, 2, 3, 255]\<rparr> \<and>
   permute_input \<lparr>nd_dtype = np_uint8, nd_shape = [2, 2], nd_items = [1, 2, 3, 255]\<rparr> None =
     Inr \<lparr>nd_dtype = np_uint8, nd_shape = [2, 2], nd_items = [1, 2, 3, 255]\<rparr> \<and>
   tensor_to_json \<lparr>compress = (\<lambda>level buf. buf), decompress = Some\<rparr> {}
       (Some (NdArray \<lparr>nd_dtype = np_uint8, nd_shape = [2, 2], nd_items = [1, 2, 3, 255]\<rparr>))
       None =
     Inr (Some \<lparr>json_shape = [2, 2], json_compression = ''zlib'', json_shuffle = None,
                json_dtype = ''uint8'', json_data = ''AQID/w==''\<rparr>)"
proof -
  let ?a = "\<lparr>nd_dtype = np_uint8, nd_shape = [2, 2], nd_items = [1, 2, 3, 255]\<rparr>"
  let ?z = "\<lparr>compress = (\<lambda>level buf. buf), decompress = Some\<rparr>"
  have h1: "tensor_to_numpy {} (NdArray ?a) = Inr ?a" by (rule tensor_to_numpy_NdArray)
  have h2: "permute_input ?a None = Inr ?a" by (simp add: permute_input_def)
  have h3: "nd_dtype ?a = np_int8 \<or> nd_dtype ?a = np_uint8" by simp
  have enc: "b64encode [1, 2, 3, 255] = ''AQID/w==''"
    by (simp add: b64_alphabet_def)
  from eight_bit_no_shuffle [OF h1 h2 h3, of ?z] h1 h2 enc show ?thesis by simp
qed

subsection \<open>Reading the bytes back\<close>

lemma le_bytes_Suc: "le_bytes (Suc w) x = of_nat x # le_bytes w (x div 256)"
proof -
  have "[0..<Suc w] = 0 # map Suc [0..<w]"
    by (simp add: upt_conv_Cons map_Suc_upt del: upt_Suc)
  then show ?thesis
    by (simp add: le_bytes_def comp_def div_mult2_eq del: upt_Suc)
qed

lemma from_le_bytes_Cons: "from_le_bytes (b # bs) = unat b + 256 * from_le_bytes bs"
  by (simp add: from_le_bytes_def)

lemma unat_byte_of_nat: "unat (of_nat x :: byte) = x mod 256"
  by (simp add: unat_of_nat)

lemma from_le_bytes_le_bytes: "x < 256 ^ w \<Longrightarrow> from_le_bytes (le_bytes w x) = x"
proof (induction w arbitrary: x)
  case 0
  then show ?case by (simp add: le_bytes_def from_le_bytes_def)
next
  case (Suc w)
  have "x div 256 < 256 ^ w" using Suc.prems by (simp add: less_mult_imp_div_less mult.commute)
  then have "from_le_bytes (le_bytes w (x div 256)) = x div 256" by (rule Suc.IH)
  then show ?case by (simp add: le_bytes_Suc from_le_bytes_Cons unat_byte_of_nat)
qed

lemma take_drop_concat:
  assumes "\<And>x. x \<in> set xs \<Longrightarrow> length (f x) = w" and "i < length xs"
  shows "take w (drop (i * w) (concat (map f xs))) = f (xs ! i)"
  using assms
proof (induction xs arbitrary: i)
  case Nil
  then show ?case by simp
next
  case (Cons y ys)
  show ?case
  proof (cases i)
    case 0
    then show ?thesis using Cons.prems(1) [of y] by simp
  next
    case (Suc j)
    have "take w (drop (j * w) (concat (map f ys))) = f (ys ! j)"
      using Cons.prems Suc by (intro Cons.IH) auto
    then show ?thesis using Cons.prems(1) [of y] Suc by (simp add: add.commute)
  qed
qed

lemma np_frombuffer_tobytes:
  assumes "list_all (\<lambda>x. x < 256 ^ itemsize t) xs"
  shows "np_frombuffer t (concat (map (le_bytes (itemsize t)) xs)) =
           Some \<lparr>nd_dtype = t, nd_shape = [length xs], nd_items = xs\<rparr>"
proof -
  let ?w = "itemsize t"
  let ?buf = "concat (map (le_bytes ?w) xs)"
  have w: "0 < ?w" by (rule itemsize_pos)
  have len: "length ?buf = ?w * length xs"
    by (rule length_concat_const) (simp add: length_le_bytes)
  have n: "length ?buf div ?w = length xs" and m: "length ?buf mod ?w = 0"
    using w by (simp_all add: len)
  have "map (\<lambda>i. from_le_bytes (take ?w (drop (i * ?w) ?buf))) [0..<length xs] = xs"
  proof (rule nth_equalityI)
    show "length (map (\<lambda>i. from_le_bytes (take ?w (drop (i * ?w) ?buf))) [0..<length xs]) =
            length xs" by simp
  next
    fix i assume "i < length (map (\<lambda>i. from_le_bytes (take ?w (drop (i * ?w) ?buf))) [0..<length xs])"
    then have i: "i < length xs" by simp
    have "take ?w (drop (i * ?w) ?buf) = le_bytes ?w (xs ! i)"
      by (rule take_drop_concat) (simp_all add: length_le_bytes i)
    moreover have "xs ! i < 256 ^ ?w" using assms i by (simp add: list_all_length)
    ultimately show "map (\<lambda>i. from_le_bytes (take ?w (drop (i * ?w) ?buf))) [0..<length xs] ! i
                       = xs ! i"
      using i by (simp add: from_le_bytes_le_bytes)
  qed
  then show ?thesis using n m by (simp add: np_frombuffer_def Let_def)
qed

lemma np_reshape_shape:
  assumes "nd_size a = prod_list shp"
  shows "np_reshape a (map int shp) = Inr (a\<lparr>nd_shape := shp\<rparr>)"
proof -
  have f: "filter (\<lambda>d. d \<noteq> - 1) (map int shp) = map int shp"
    by (induction shp) simp_all
  have g: "filter (\<lambda>d. d = - 1) (map int shp) = []"
    by (induction shp) simp_all
  have e: "\<not> list_ex (\<lambda>d. d < - 1) (map int shp)"
    by (induction shp) simp_all
  have p: "nat (prod_list (map int shp)) = prod_list shp"
    by (induction shp) (simp_all add: nat_mult_distrib)
  have m: "- 1 \<notin> set (map int shp)" by auto
  have i: "map nat (map int shp) = shp" by (simp add: comp_def)
  show ?thesis using assms unfolding np_reshape_def Let_def f g p
    by (simp only: e m i if_False list.size) simp
qed

subsection \<open>The widening of float16 to float32\<close>

lemma mod_mult_add: "r < b \<Longrightarrow> (q * b + r) mod b = (r::nat)"
  by simp

lemma f32_fields:
  fixes s E M :: nat
  assumes "s < 2" "E < 256" "M < 8388608"
  shows "(s * 2147483648 + E * 8388608 + M) div 2147483648 mod 2 = s"
    and "(s * 2147483648 + E * 8388608 + M) div 8388608 mod 256 = E"
    and "(s * 2147483648 + E * 8388608 + M) mod 8388608 = M"
proof -
  have a: "E * 8388608 + M < 2147483648" using assms by simp
  have "(s * 2147483648 + E * 8388608 + M) div 2147483648 = s" using a by simp
  then show "(s * 2147483648 + E * 8388608 + M) div 2147483648 mod 2 = s"
    using assms(1) by simp
  have eq: "s * 2147483648 + E * 8388608 + M = (s * 256 + E) * 8388608 + M" by simp
  have "(s * 2147483648 + E * 8388608 + M) div 8388608 = s * 256 + E"
    unfolding eq using assms(3) by simp
  then show "(s * 2147483648 + E * 8388608 + M) div 8388608 mod 256 = E"
    using assms(2) by simp
  show "(s * 2147483648 + E * 8388608 + M) mod 8388608 = M"
    unfolding eq using assms(3) by (rule mod_mult_add)
qed

lemma f32_value_fields:
  fixes s E M :: nat
  assumes "s < 2" "E < 256" "M < 8388608"
  shows "f32_value (s * 2147483648 + E * 8388608 + M) =
           (if E = 255 then (if M = 0 then Infinity (s = 1) else NaN)
            else if E = 0 then Finite (s = 1) (of_nat M / 2 ^ 149)
            else Finite (s = 1) (of_nat (8388608 + M) * 2 ^ E / 2 ^ 150))"
  using f32_fields [OF assms] by (simp add: f32_value_def Let_def)

lemma f16_fields:
  fixes s e m :: nat
  assumes "s < 2" "e < 32" "m < 1024"
  shows "(s * 32768 + e * 1024 + m) div 32768 mod 2 = s"
    and "(s * 32768 + e * 1024 + m) div 1024 mod 32 = e"
    and "(s * 32768 + e * 1024 + m) mod 1024 = m"
    and "(s * 32768 + e * 1024 + m) mod 32768 = e * 1024 + m"
proof -
  have a: "e * 1024 + m < 32768" using assms by simp
  have "(s * 32768 + e * 1024 + m) div 32768 = s" using a by simp
  then show "(s * 32768 + e * 1024 + m) div 32768 mod 2 = s" using assms(1) by simp
  have eq: "s * 32768 + e * 1024 + m = (s * 32 + e) * 1024 + m" by simp
  have "(s * 32768 + e * 1024 + m) div 1024 = s * 32 + e" unfolding eq using assms(3) by simp
  then show "(s * 32768 + e * 1024 + m) div 1024 mod 32 = e" using assms(2) by simp
  show "(s * 32768 + e * 1024 + m) mod 1024 = m"
    unfolding eq using assms(3) by (rule mod_mult_add)
  show "(s * 32768 + e * 1024 + m) mod 32768 = e * 1024 + m" using a by (simp add: add.assoc)
qed

lemma half_decompose:
  fixes h :: nat
  assumes "h < 65536"
  obtains s e m where "h = s * 32768 + e * 1024 + m" "s < 2" "e < 32" "m < 1024"
proof
  show "h = (h div 32768) * 32768 + (h div 1024 mod 32) * 1024 + h mod 1024"
  proof -
    have a: "h div 32768 = h div 1024 div 32" by (simp add: div_mult2_eq)
    have "h div 1024 = h div 1024 div 32 * 32 + h div 1024 mod 32" by simp
    then have "h div 1024 * 1024 = (h div 32768 * 32 + h div 1024 mod 32) * 1024"
      unfolding a by simp
    also have "\<dots> = h div 32768 * 32768 + h div 1024 mod 32 * 1024" by simp
    finally have "h div 1024 * 1024 + h mod 1024 =
                    h div 32768 * 32768 + h div 1024 mod 32 * 1024 + h mod 1024" by simp
    then show ?thesis by simp
  qed
  show "h div 32768 < 2" using assms by simp
  show "h div 1024 mod 32 < 32" by simp
  show "h mod 1024 < 1024" by simp
qed


lemma half_normalize_spec:
  "0 < sig \<Longrightarrow> sig < 2048 \<Longrightarrow> half_normalize sig e = (sig', e') \<Longrightarrow>
     1024 \<le> sig' \<and> sig' < 2048 \<and> e \<le> e' \<and> sig' = sig * 2 ^ (e' - e)"
proof (induction sig e rule: half_normalize.induct)
  case (1 h_sig h_exp)
  show ?case
  proof (cases "h_sig < 1024")
    case True
    have step: "half_normalize h_sig h_exp = half_normalize (2 * h_sig) (Suc h_exp)"
      using True "1.prems"(1) by (subst half_normalize.simps) simp
    have ih: "1024 \<le> sig' \<and> sig' < 2048 \<and> Suc h_exp \<le> e' \<and>
                sig' = 2 * h_sig * 2 ^ (e' - Suc h_exp)"
      using "1.IH" True "1.prems" step by simp
    from ih have le: "Suc h_exp \<le> e'" by blast
    then have "e' - h_exp = Suc (e' - Suc h_exp)" by arith
    then show ?thesis using ih by simp
  next
    case False
    have "half_normalize h_sig h_exp = (h_sig, h_exp)"
      using False by (subst half_normalize.simps) simp
    then show ?thesis using False "1.prems" by simp
  qed
qed

lemma half_to_float_fields:
  fixes s e m :: nat
  assumes "s < 2" "e < 32" "m < 1024"
  shows "half_to_float (s * 32768 + e * 1024 + m) =
           (if e = 0 then
              (if m = 0 then s * 2147483648
               else s * 2147483648 + (112 - snd (half_normalize (2 * m) 0)) * 8388608 +
                      (fst (half_normalize (2 * m) 0) mod 1024) * 8192)
            else if e = 31 then s * 2147483648 + 255 * 8388608 + m * 8192
            else s * 2147483648 + (e + 112) * 8388608 + m * 8192)"
  unfolding half_to_float_def f16_fields [OF assms] Let_def
  by (simp add: case_prod_beta)

lemma fields_less:
  fixes s E M :: nat
  assumes "s < 2" "E < 256" "M < 8388608"
  shows "s * 2147483648 + E * 8388608 + M < 4294967296"
proof -
  have "s * 2147483648 \<le> 2147483648" using assms(1) by simp
  moreover have "E * 8388608 \<le> 255 * 8388608" using assms(2) by simp
  ultimately show ?thesis using assms(3) by simp
qed

lemma subnormal_fields:
  fixes m :: nat
  assumes "0 < m" "m < 1024"
  obtains sig k where "half_normalize (2 * m) 0 = (sig, k)" "1024 \<le> sig" "sig < 2048"
    "sig = 2 * m * 2 ^ k" "k < 10"
proof -
  obtain sig k where n: "half_normalize (2 * m) 0 = (sig, k)"
    by (cases "half_normalize (2 * m) 0")
  have sp: "1024 \<le> sig \<and> sig < 2048 \<and> 0 \<le> k \<and> sig = 2 * m * 2 ^ (k - 0)"
    using half_normalize_spec [OF _ _ n] assms by simp
  then have sig: "sig = 2 * m * 2 ^ k" by simp
  have a: "(2::nat) ^ k \<le> m * 2 ^ k" using assms(1) by (cases m) simp_all
  have b: "m * 2 ^ k < 1024" using sp sig by simp
  from a b have "(2::nat) ^ k < 1024" by (rule le_less_trans)
  then have "(2::nat) ^ k < 2 ^ 10" by simp
  then have "k < 10" by (simp only: power_strict_increasing_iff one_less_numeral_iff semiring_norm)
  with n sp sig show ?thesis using that by blast
qed


lemma f16_value_fields:
  fixes s e m :: nat
  assumes "s < 2" "e < 32" "m < 1024"
  shows "f16_value (s * 32768 + e * 1024 + m) =
           (if e = 31 then (if m = 0 then Infinity (s = 1) else NaN)
            else if e = 0 then Finite (s = 1) (of_nat m / 2 ^ 24)
            else Finite (s = 1) (of_nat (1024 + m) * 2 ^ e / 2 ^ 25))"
  unfolding f16_value_def f16_fields [OF assms] Let_def by simp

lemma half_to_float_cases:
  fixes s e m :: nat
  assumes "s < 2" "e < 32" "m < 1024"
  shows "half_to_float (s * 32768 + e * 1024 + m) < 4294967296 \<and>
         f32_value (half_to_float (s * 32768 + e * 1024 + m)) =
           f16_value (s * 32768 + e * 1024 + m)"
proof -
  consider (zero) "e = 0" "m = 0" | (sub) "e = 0" "0 < m" | (special) "e = 31"
    | (normal) "0 < e" "e < 31" using assms(2) by linarith
  then show ?thesis
  proof cases
    case zero
    have f: "half_to_float (s * 32768 + e * 1024 + m) = s * 2147483648 + 0 * 8388608 + 0"
      unfolding half_to_float_fields [OF assms] using zero by simp
    show ?thesis unfolding f f16_value_fields [OF assms]
      using zero assms(1) f32_value_fields [of s 0 0] fields_less [of s 0 0] by simp
  next
    case sub
    obtain sig k where n: "half_normalize (2 * m) 0 = (sig, k)" and lo: "1024 \<le> sig"
      and hi: "sig < 2048" and sig: "sig = 2 * m * 2 ^ k" and k: "k < 10"
      using subnormal_fields [OF sub(2) assms(3)] by blast
    let ?E = "112 - k"
    let ?M = "(sig mod 1024) * 8192"
    have f: "half_to_float (s * 32768 + e * 1024 + m) = s * 2147483648 + ?E * 8388608 + ?M"
      unfolding half_to_float_fields [OF assms] n using sub by simp
    have E: "?E < 256" "?E \<noteq> 255" "?E \<noteq> 0" using k by simp_all
    have M: "?M < 8388608" by simp
    have sm: "sig mod 1024 = sig - 1024" using lo hi by (simp add: mod_if)
    have "8388608 + ?M = sig * 8192" unfolding sm using lo by simp
    then have nat_eq: "8388608 + ?M = m * 16384 * 2 ^ k" unfolding sig by simp
    have pk: "(2::rat) ^ k * 2 ^ (112 - k) = 2 ^ 112"
      using k by (simp add: power_add [symmetric])
    have "of_nat (8388608 + ?M) * (2::rat) ^ ?E / 2 ^ 150 =
            of_nat m * 16384 * (2 ^ k * 2 ^ (112 - k)) / 2 ^ 150"
      unfolding nat_eq by simp
    also have "\<dots> = of_nat m / 2 ^ 24" unfolding pk by simp
    finally have v: "of_nat (8388608 + ?M) * (2::rat) ^ ?E / 2 ^ 150 = of_nat m / 2 ^ 24" .
    show ?thesis unfolding f f16_value_fields [OF assms]
      using sub E f32_value_fields [OF assms(1) E(1) M] fields_less [OF assms(1) E(1) M] v
      by simp
  next
    case special
    let ?M = "m * 8192"
    have f: "half_to_float (s * 32768 + e * 1024 + m) = s * 2147483648 + 255 * 8388608 + ?M"
      unfolding half_to_float_fields [OF assms] using special by simp
    have M: "?M < 8388608" using assms(3) by simp
    show ?thesis unfolding f f16_value_fields [OF assms]
      using special f32_value_fields [OF assms(1) _ M, of 255] fields_less [OF assms(1) _ M, of 255]
      by simp
  next
    case normal
    let ?E = "e + 112"
    let ?M = "m * 8192"
    have f: "half_to_float (s * 32768 + e * 1024 + m) = s * 2147483648 + ?E * 8388608 + ?M"
      unfolding half_to_float_fields [OF assms] using normal by simp
    have E: "?E < 256" "?E \<noteq> 255" "?E \<noteq> 0" using normal by simp_all
    have M: "?M < 8388608" using assms(3) by simp
    have "of_nat (8388608 + ?M) * (2::rat) ^ ?E / 2 ^ 150 =
            of_nat (1024 + m) * 2 ^ e * (8192 * 2 ^ 112 / 2 ^ 150)"
      by (simp add: power_add)
    also have "\<dots> = of_nat (1024 + m) * 2 ^ e / 2 ^ 25" by simp
    finally have v: "of_nat (8388608 + ?M) * (2::rat) ^ ?E / 2 ^ 150 =
                       of_nat (1024 + m) * 2 ^ e / 2 ^ 25" .
    show ?thesis unfolding f f16_value_fields [OF assms]
      using normal E f32_value_fields [OF assms(1) E(1) M] fields_less [OF assms(1) E(1) M] v
      by simp
  qed
qed

lemma half_to_float_less: "h < 65536 \<Longrightarrow> half_to_float h < 4294967296"
  using half_to_float_cases by (elim half_decompose) blast

lemma half_to_float_value: "h < 65536 \<Longrightarrow> f32_value (half_to_float h) = f16_value h"
  using half_to_float_cases by (elim half_decompose) blast

subsection \<open>Transposition keeps arrays well formed\<close>

lemma offset_mono:
  "list_all2 (\<le>) xs ys \<Longrightarrow> offset ss xs \<le> offset ss ys"
proof (induction xs ys arbitrary: ss rule: list_all2_induct)
  case Nil
  then show ?case by simp
next
  case (Cons x xs y ys)
  show ?case
  proof (cases ss)
    case Nil
    then show ?thesis by (simp add: offset_def)
  next
    case (Cons s ss')
    have a: "x * s \<le> y * s" using Cons.hyps(1) by (rule mult_le_mono1)
    have b: "offset ss' xs \<le> offset ss' ys" by (rule Cons.IH)
    have "x * s + offset ss' xs \<le> y * s + offset ss' ys" by (rule add_mono [OF a b])
    then show ?thesis unfolding Cons offset_Cons .
  qed
qed

lemma offset_last_index:
  "\<forall>d \<in> set shp. 0 < d \<Longrightarrow>
     Suc (offset (c_strides shp) (map (\<lambda>d. d - 1) shp)) = prod_list shp"
proof (induction shp)
  case Nil
  then show ?case by (simp add: c_strides_Nil offset_def)
next
  case (Cons d ds)
  then have ih: "Suc (offset (c_strides ds) (map (\<lambda>d. d - 1) ds)) = prod_list ds" by simp
  have d: "0 < d" using Cons.prems by simp
  have "Suc (offset (c_strides (d # ds)) (map (\<lambda>d. d - 1) (d # ds))) =
          (d - 1) * prod_list ds + Suc (offset (c_strides ds) (map (\<lambda>d. d - 1) ds))"
    by (simp add: c_strides_Cons offset_Cons)
  also have "\<dots> = (d - 1) * prod_list ds + prod_list ds" unfolding ih ..
  also have "\<dots> = d * prod_list ds" using d by (cases d) simp_all
  finally show ?case by simp
qed

lemma valid_index_unravel:
  "k < prod_list shp \<Longrightarrow> valid_index shp (unravel shp k)"
proof (induction shp arbitrary: k)
  case Nil
  then show ?case by (simp add: valid_index_def)
next
  case (Cons d ds)
  have pos: "0 < prod_list ds" using Cons.prems by (cases "prod_list ds") simp_all
  have "k div prod_list ds < d"
    using Cons.prems by (simp add: less_mult_imp_div_less mult.commute)
  moreover have "valid_index ds (unravel ds (k mod prod_list ds))"
    using pos by (intro Cons.IH) simp
  ultimately show ?case by (simp add: valid_index_def)
qed

lemma offset_transposed_less:
  assumes q: "distinct q" "length q = length shp" "\<forall>j \<in> set q. j < length shp"
    and v: "valid_index (map (\<lambda>p. shp ! p) q) idx"
  shows "offset (map (\<lambda>p. c_strides shp ! p) q) idx < prod_list shp"
proof -
  let ?last = "map (\<lambda>d. d - 1) shp"
  have set_q: "set q = {0..<length shp}" by (rule perm_set [OF q])
  have len: "length idx = length q" using v by (simp add: valid_index_def)
  have cell: "idx ! j < shp ! (q ! j)" if "j < length q" for j
    using v that by (auto simp: valid_index_def list_all2_conv_all_nth)
  have pos: "\<forall>d \<in> set shp. 0 < d"
  proof
    fix d assume "d \<in> set shp"
    then obtain i where i: "i < length shp" "shp ! i = d" by (auto simp: in_set_conv_nth)
    then have "i \<in> set q" using set_q by simp
    then obtain j where j: "j < length q" "q ! j = i" by (auto simp: in_set_conv_nth)
    from cell [OF j(1)] show "0 < d" using i j by simp
  qed
  have le: "list_all2 (\<le>) idx (map (\<lambda>p. ?last ! p) q)"
  proof (rule list_all2_all_nthI)
    show "length idx = length (map (\<lambda>p. ?last ! p) q)" using len by simp
  next
    fix j assume "j < length idx"
    then have j: "j < length q" using len by simp
    then have "q ! j < length shp" using q(3) by simp
    then show "idx ! j \<le> map (\<lambda>p. ?last ! p) q ! j" using cell [OF j] j by simp
  qed
  have "offset (map (\<lambda>p. c_strides shp ! p) q) idx \<le>
          offset (map (\<lambda>p. c_strides shp ! p) q) (map (\<lambda>p. ?last ! p) q)"
    by (rule offset_mono [OF le])
  also have "\<dots> = offset (c_strides shp) ?last"
    by (rule offset_permuted [OF q]) (simp_all add: length_c_strides)
  also have "\<dots> < prod_list shp" using offset_last_index [OF pos] by simp
  finally show ?thesis .
qed

lemma wf_transpose_axes:
  assumes q: "distinct q" "length q = length (nd_shape a)" "\<forall>j \<in> set q. j < length (nd_shape a)"
    and wf: "wf_ndarray a"
  shows "wf_ndarray (transpose_axes a q)"
proof -
  let ?shp = "map (\<lambda>p. nd_shape a ! p) q"
  let ?str = "map (\<lambda>p. c_strides (nd_shape a) ! p) q"
  have len: "length (nd_items a) = prod_list (nd_shape a)"
    using wf by (simp add: wf_ndarray_def nd_size_def)
  have small: "nd_items a ! i < 256 ^ itemsize (nd_dtype a)" if "i < prod_list (nd_shape a)" for i
    using wf that len by (simp add: wf_ndarray_def list_all_length)
  have "nd_items a ! offset ?str (unravel ?shp k) < 256 ^ itemsize (nd_dtype a)"
    if "k < prod_list ?shp" for k
    by (intro small offset_transposed_less [OF q] valid_index_unravel [OF that])
  then show ?thesis
    by (simp add: wf_ndarray_def nd_size_def transpose_axes_def Let_def list_all_length)
qed

lemma wf_permute_input:
  assumes "permute_ok a permute" "wf_ndarray a"
  shows "\<exists>a'. permute_input a permute = Inr a' \<and> wf_ndarray a' \<and>
            nd_shape a' = permuted_shape a permute \<and> nd_dtype a' = nd_dtype a"
proof (cases permute)
  case None
  then show ?thesis using assms(2) by (simp add: permute_input_def permuted_shape_def)
next
  case (Some p)
  with assms have v: "valid_axes (length (nd_shape a)) p" by (simp add: permute_ok_def)
  show ?thesis unfolding Some
    using wf_transpose_axes [OF valid_axes_perm [OF v] assms(2)]
    by (simp add: permute_input_valid [OF v] nd_shape_transpose_axes nd_dtype_transpose_axes
          permuted_shape_def comp_def)
qed

subsection \<open>Decoding what the encoder wrote\<close>

lemma np_astype_float16:
  "nd_dtype a = np_float16 \<Longrightarrow>
     np_astype a np_float32 =
       \<lparr>nd_dtype = np_float32, nd_shape = nd_shape a, nd_items = map half_to_float (nd_items a)\<rparr>"
proof -
  assume d: "nd_dtype a = np_float16"
  have "cast_item np_float16 np_float32 = half_to_float"
    by (rule ext) (simp add: cast_item_def)
  then show ?thesis using d by (cases a) (simp add: np_astype_def)
qed

lemma np_astype_record:
  "np_astype a t =
     \<lparr>nd_dtype = t, nd_shape = nd_shape a, nd_items = map (cast_item (nd_dtype a) t) (nd_items a)\<rparr>"
  by (cases a) (simp add: np_astype_def)

lemma wf_np_astype:
  assumes "wf_ndarray a" "dtype_mapping (nd_dtype a) = Some (t, name, c, sh)"
  shows "wf_ndarray (np_astype a t)"
proof (cases "t = nd_dtype a")
  case True
  then show ?thesis using assms(1) by (simp add: np_astype_same)
next
  case False
  with dtype_mapping_target [OF assms(2)] have d: "nd_dtype a = np_float16" "t = np_float32"
    by auto
  have "x < 65536" if "x \<in> set (nd_items a)" for x
    using assms(1) d that by (simp add: wf_ndarray_def list_all_iff)
  then have "half_to_float x < 256 ^ 4" if "x \<in> set (nd_items a)" for x
    using half_to_float_less [of x] that by simp
  then show ?thesis using assms(1) d
    by (simp add: np_astype_float16 wf_ndarray_def nd_size_def list_all_iff)
qed

lemma unshuffle_shuffled:
  assumes "dtype_mapping d = Some (t, name, c, sh)"
    and "shuffle_bytes sh (np_tobytes (np_flatten (np_astype a t))) = Inr bd"
  shows "(case sh of None \<Rightarrow> Some bd | Some s \<Rightarrow> unshuffle_bytes s bd) =
           Some (np_tobytes (np_flatten (np_astype a t)))"
proof (cases sh)
  case None
  then show ?thesis using assms(2) by (simp add: shuffle_bytes_def)
next
  case (Some s)
  with dtype_mapping_stride [OF assms(1)] have s: "s = itemsize t" by simp
  let ?buf = "np_tobytes (np_flatten (np_astype a t))"
  let ?n = "length (nd_items a)"
  have len: "length ?buf = ?n * itemsize t" by (rule length_encoded_bytes)
  have "shuffle_bytes (Some (itemsize t)) ?buf =
          Inr (map (\<lambda>k. ?buf ! (k div ?n + (k mod ?n) * itemsize t)) [0..<itemsize t * ?n])"
    by (rule shuffle_bytes_Some [OF itemsize_pos len])
  with assms(2) have bd: "bd = map (\<lambda>k. ?buf ! (k div ?n + (k mod ?n) * itemsize t))
                                  [0..<itemsize t * ?n]"
    unfolding Some s by simp
  show ?thesis unfolding Some s bd option.case
    by (rule unshuffle_shuffle [OF itemsize_pos len])
qed

lemma decode_encoded:
  assumes zi: "zlib_inverse zlib"
    and wf: "wf_ndarray a"
    and m: "dtype_mapping (nd_dtype a) = Some (t, name, c, sh)"
    and sb: "shuffle_bytes sh (np_tobytes (np_flatten (np_astype a t))) = Inr bd"
  shows "decode_envelope zlib
           \<lparr>json_shape = map int (nd_shape a), json_compression = ''zlib'',
            json_shuffle = sh, json_dtype = name,
            json_data = b64encode (compress zlib Z_BEST_SPEED bd)\<rparr> =
         Some (np_astype a t)"
proof -
  let ?a = "np_astype a t"
  let ?flat = "\<lparr>nd_dtype = t, nd_shape = [length (nd_items ?a)], nd_items = nd_items ?a\<rparr>"
  have inflate: "decompress zlib (compress zlib Z_BEST_SPEED bd) = Some bd"
    using zi by (simp add: zlib_inverse_def)
  have un: "(case sh of None \<Rightarrow> Some bd | Some s \<Rightarrow> unshuffle_bytes s bd) =
              Some (np_tobytes (np_flatten ?a))"
    by (rule unshuffle_shuffled [OF m sb])
  have name: "dtype_of_name name = Some t" using dtype_mapping_name [OF m] by blast
  have wfa: "wf_ndarray ?a" by (rule wf_np_astype [OF wf m])
  have dt: "nd_dtype ?a = t" by (simp add: np_astype_def)
  have small: "list_all (\<lambda>x. x < 256 ^ itemsize t) (nd_items ?a)"
    using wfa dt by (simp add: wf_ndarray_def)
  have bytes: "np_tobytes (np_flatten ?a) = concat (map (le_bytes (itemsize t)) (nd_items ?a))"
    using dt by (simp add: np_tobytes_def np_flatten_def)
  have fb: "np_frombuffer t (np_tobytes (np_flatten ?a)) = Some ?flat"
    unfolding bytes by (rule np_frombuffer_tobytes [OF small])
  have size: "nd_size ?flat = prod_list (nd_shape a)"
    using wf by (simp add: nd_size_def wf_ndarray_def np_astype_def)
  have rs: "np_reshape ?flat (map int (nd_shape a)) = Inr (?flat\<lparr>nd_shape := nd_shape a\<rparr>)"
    by (rule np_reshape_shape [OF size])
  have res: "\<lparr>nd_dtype = t, nd_shape = nd_shape a, nd_items = nd_items ?a\<rparr> = ?a"
    by (cases a) (simp add: np_astype_def)
  show ?thesis
    unfolding decode_envelope_def
    by (simp add: b64decode_b64encode inflate un name fb rs res)
qed

subsection \<open>The round trip and the float16 cast\<close>

lemma float16_values:
  assumes "wf_ndarray a" "nd_dtype a = np_float16"
  shows "map f32_value (nd_items (np_astype a np_float32)) = map f16_value (nd_items a)"
proof -
  have "x < 65536" if "x \<in> set (nd_items a)" for x
    using assms that by (simp add: wf_ndarray_def list_all_iff)
  then have "f32_value (half_to_float x) = f16_value x" if "x \<in> set (nd_items a)" for x
    using half_to_float_value that by blast
  then show ?thesis by (simp add: np_astype_float16 [OF assms(2)])
qed

lemma encode_decode:
  assumes "zlib_inverse zlib"
    and "tensor_to_numpy sys_modules x = Inr a0"
    and "permute_input a0 permute = Inr a"
    and "wf_ndarray a"
    and "dtype_mapping (nd_dtype a) = Some (t, name, c, sh)"
  shows "\<exists>e. tensor_to_json zlib sys_modules (Some x) permute = Inr (Some e) \<and>
             json_shape e = map int (nd_shape a) \<and> json_compression e = ''zlib'' \<and>
             json_shuffle e = sh \<and> json_dtype e = name \<and>
             decode_envelope zlib e = Some (np_astype a t)"
proof -
  obtain bd where sb: "shuffle_bytes sh (np_tobytes (np_flatten (np_astype a t))) = Inr bd"
    using shuffle_bytes_mapping [OF assms(5)] by blast
  show ?thesis
    using tensor_to_json_encode [OF assms(2,3,5) sb, of zlib]
      decode_encoded [OF assms(1,4,5) sb]
    by simp
qed

lemma f32_small_integers:
  "map f32_value [0x3F800000, 0x40000000, 0x40400000, 0x40800000, 0x40A00000, 0x40C00000] =
     [Finite False 1, Finite False 2, Finite False 3, Finite False 4, Finite False 5,
      Finite False 6]"
  by (simp add: f32_value_def)


text \<open>C1: with a zlib whose \<open>decompress\<close> inverts its \<open>compress\<close>, for every input that
  normalises to a well-formed array with an element type of \<open>dtype_mapping\<close>, and a
  permutation that is absent or valid, decoding the envelope (base64, inflate, inverse
  shuffle when the stride is not null, reinterpret as the envelope's dtype, reshape)
  gives the permuted array cast to the transmission type, with the shape of the
  envelope. For every element type but float16 that is the permuted array itself, bit
  for bit; for float16 it is the float32 array whose elements have exactly the values of
  the float16 elements. In particular the 2x3 float32 array \<open>[[1,2,3],[4,5,6]]\<close> without
  permutation has the envelope fields shape \<open>[2,3]\<close>, dtype \<open>float32\<close>, compression
  \<open>zlib\<close>, shuffle 4, and its data decodes to the values 1 to 6 in row-major order.\<close>

theorem decode_recovers:
  assumes "zlib_inverse zlib"
    and "tensor_to_numpy sys_modules x = Inr a0"
    and "wf_ndarray a0"
    and "permute_ok a0 permute"
    and "dtype_mapping (nd_dtype a0) = Some (t, name, c, sh)"
  shows "(\<exists>a e. permute_input a0 permute = Inr a \<and>
            tensor_to_json zlib sys_modules (Some x) permute = Inr (Some e) \<and>
            decode_envelope zlib e = Some (np_astype a t) \<and>
            nd_shape (np_astype a t) = nd_shape a \<and>
            map int (nd_shape a) = json_shape e \<and>
            (nd_dtype a \<noteq> np_float16 \<longrightarrow> np_astype a t = a) \<and>
            (nd_dtype a = np_float16 \<longrightarrow>
               nd_dtype (np_astype a t) = np_float32 \<and>
               map f32_value (nd_items (np_astype a t)) = map f16_value (nd_items a))) \<and>
         (\<exists>e d. tensor_to_json zlib sys_modules
                  (Some (NdArray \<lparr>nd_dtype = np_float32, nd_shape = [2, 3],
                     nd_items = [0x3F800000, 0x40000000, 0x40400000,
                                 0x40800000, 0x40A00000, 0x40C00000]\<rparr>)) None = Inr (Some e) \<and>
            json_shape e = [2, 3] \<and> json_dtype e = ''float32'' \<and>
            json_compression e = ''zlib'' \<and> json_shuffle e = Some 4 \<and>
            decode_envelope zlib e = Some d \<and>
            nd_dtype d = np_float32 \<and> nd_shape d = [2, 3] \<and>
            map f32_value (nd_items d) =
              [Finite False 1, Finite False 2, Finite False 3,
               Finite False 4, Finite False 5, Finite False 6])"
proof (rule conjI)
  obtain a where p: "permute_input a0 permute = Inr a" and wf: "wf_ndarray a"
    and d: "nd_dtype a = nd_dtype a0"
    using wf_permute_input [OF assms(4,3)] by blast
  have m: "dtype_mapping (nd_dtype a) = Some (t, name, c, sh)" using assms(5) d by simp
  obtain e where e: "tensor_to_json zlib sys_modules (Some x) permute = Inr (Some e)"
    "json_shape e = map int (nd_shape a)" "decode_envelope zlib e = Some (np_astype a t)"
    using encode_decode [OF assms(1,2) p wf m] by blast
  have same: "np_astype a t = a" if "nd_dtype a \<noteq> np_float16"
    using dtype_mapping_target [OF m] that np_astype_same [of a] by auto
  have half: "nd_dtype (np_astype a t) = np_float32 \<and>
                map f32_value (nd_items (np_astype a t)) = map f16_value (nd_items a)"
    if h: "nd_dtype a = np_float16"
  proof -
    have t: "t = np_float32" using m h by (simp add: dtype_mapping_def)
    show ?thesis unfolding t using float16_values [OF wf h] by (simp add: np_astype_def)
  qed
  have shp: "nd_shape (np_astype a t) = nd_shape a" by (simp add: np_astype_def)
  show "\<exists>a e. permute_input a0 permute = Inr a \<and>
          tensor_to_json zlib sys_modules (Some x) permute = Inr (Some e) \<and>
          decode_envelope zlib e = Some (np_astype a t) \<and>
          nd_shape (np_astype a t) = nd_shape a \<and>
          map int (nd_shape a) = json_shape e \<and>
          (nd_dtype a \<noteq> np_float16 \<longrightarrow> np_astype a t = a) \<and>
          (nd_dtype a = np_float16 \<longrightarrow>
             nd_dtype (np_astype a t) = np_float32 \<and>
             map f32_value (nd_items (np_astype a t)) = map f16_value (nd_items a))"
    using p e same half shp by (intro exI [of _ a] exI [of _ e]) simp
next
  let ?a = "\<lparr>nd_dtype = np_float32, nd_shape = [2, 3],
             nd_items = [0x3F800000, 0x40000000, 0x40400000,
                         0x40800000, 0x40A00000, 0x40C00000]\<rparr>"
  have n: "tensor_to_numpy sys_modules (NdArray ?a) = Inr ?a" by (rule tensor_to_numpy_NdArray)
  have p: "permute_input ?a None = Inr ?a" by (simp add: permute_input_def)
  have wf: "wf_ndarray ?a" by (simp add: wf_ndarray_def nd_size_def)
  have m: "dtype_mapping (nd_dtype ?a) = Some (np_float32, ''float32'', ''zlib'', Some 4)"
    by (simp add: dtype_mapping_def)
  have same: "np_astype ?a np_float32 = ?a" using np_astype_same [of ?a] by simp
  obtain e where e: "tensor_to_json zlib sys_modules (Some (NdArray ?a)) None = Inr (Some e)"
    "json_shape e = map int (nd_shape ?a)" "json_compression e = ''zlib''"
    "json_shuffle e = Some 4" "json_dtype e = ''float32''"
    "decode_envelope zlib e = Some (np_astype ?a np_float32)"
    using encode_decode [OF assms(1) n p wf m] by blast
  show "\<exists>e d. tensor_to_json zlib sys_modules (Some (NdArray ?a)) None = Inr (Some e) \<and>
          json_shape e = [2, 3] \<and> json_dtype e = ''float32'' \<and>
          json_compression e = ''zlib'' \<and> json_shuffle e = Some 4 \<and>
          decode_envelope zlib e = Some d \<and>
          nd_dtype d = np_float32 \<and> nd_shape d = [2, 3] \<and>
          map f32_value (nd_items d) =
            [Finite False 1, Finite False 2, Finite False 3,
             Finite False 4, Finite False 5, Finite False 6]"
    using e f32_small_integers unfolding same
    by (intro exI [of _ e] exI [of _ ?a]) simp
qed


theorem decode_recovers_witness:
  "zlib_inverse \<lparr>compress = (\<lambda>level buf. buf), decompress = Some\<rparr> \<and>
   tensor_to_numpy {} (NdArray \<lparr>nd_dtype = np_float16, nd_shape = [2],
       nd_items = [0x3C00, 0xC000]\<rparr>) =
     Inr \<lparr>nd_dtype = np_float16, nd_shape = [2], nd_items = [0x3C00, 0xC000]\<rparr> \<and>
   wf_ndarray \<lparr>nd_dtype = np_float16, nd_shape = [2], nd_items = [0x3C00, 0xC000]\<rparr> \<and>
   permute_ok \<lparr>nd_dtype = np_float16, nd_shape = [2], nd_items = [0x3C00, 0xC000]\<rparr> None \<and>
   dtype_mapping np_float16 = Some (np_float32, ''float32'', ''zlib'', Some 4) \<and>
   (\<exists>e. tensor_to_json \<lparr>compress = (\<lambda>level buf. buf), decompress = Some\<rparr> {}
           (Some (NdArray \<lparr>nd_dtype = np_float16, nd_shape = [2],
              nd_items = [0x3C00, 0xC000]\<rparr>)) None = Inr (Some e) \<and>
        decode_envelope \<lparr>compress = (\<lambda>level buf. buf), decompress = Some\<rparr> e =
          Some \<lparr>nd_dtype = np_float32, nd_shape = [2], nd_items = [0x3F800000, 0xC0000000]\<rparr>)"
proof -
  let ?z = "\<lparr>compress = (\<lambda>level buf. buf), decompress = Some\<rparr>"
  let ?a = "\<lparr>nd_dtype = np_float16, nd_shape = [2], nd_items = [0x3C00, 0xC000]\<rparr>"
  have h1: "zlib_inverse ?z" by (simp add: zlib_inverse_def)
  have h2: "tensor_to_numpy {} (NdArray ?a) = Inr ?a" by (rule tensor_to_numpy_NdArray)
  have h3: "wf_ndarray ?a" by (simp add: wf_ndarray_def nd_size_def)
  have h4: "permute_ok ?a None" by (simp add: permute_ok_def)
  have h5: "dtype_mapping (nd_dtype ?a) = Some (np_float32, ''float32'', ''zlib'', Some 4)"
    by (simp add: dtype_mapping_def)
  have cast: "np_astype ?a np_float32 =
                \<lparr>nd_dtype = np_float32, nd_shape = [2], nd_items = [0x3F800000, 0xC0000000]\<rparr>"
    by (simp add: np_astype_float16 half_to_float_def)
  from decode_recovers [OF h1 h2 h3 h4 h5]
  obtain a' e where r: "permute_input ?a None = Inr a'"
    "tensor_to_json ?z {} (Some (NdArray ?a)) None = Inr (Some e)"
    "decode_envelope ?z e = Some (np_astype a' np_float32)"
    by blast
  from r(1) have "a' = ?a" by (simp add: permute_input_def)
  with r cast have "\<exists>e. tensor_to_json ?z {} (Some (NdArray ?a)) None = Inr (Some e) \<and>
      decode_envelope ?z e =
        Some \<lparr>nd_dtype = np_float32, nd_shape = [2], nd_items = [0x3F800000, 0xC0000000]\<rparr>"
    by auto
  with h1 h2 h3 h4 h5 show ?thesis by simp
qed

text \<open>C9: for an input whose array, after the permutation, is well formed and has
  element type float16, the table's entry is float32 with name \<open>float32\<close> and stride 4:
  the elements are cast to float32, a wider type, before they are serialised, the
  envelope says dtype \<open>float32\<close> and shuffle 4, and every element of the cast array has
  exactly the value of the float16 element it comes from (the same finite number with
  the same sign, the same infinity, or not a number for not a number). For every other
  element type of the table the transmission type is the element type and the cast
  returns the array unchanged.\<close>

theorem float16_widening:
  assumes "tensor_to_numpy sys_modules x = Inr a0"
    and "permute_input a0 permute = Inr a"
    and "wf_ndarray a"
  shows "(nd_dtype a = np_float16 \<longrightarrow>
            dtype_mapping (nd_dtype a) = Some (np_float32, ''float32'', ''zlib'', Some 4) \<and>
            (\<exists>bd. shuffle_bytes (Some 4)
                     (np_tobytes (np_flatten (np_astype a np_float32))) = Inr bd \<and>
                 tensor_to_json zlib sys_modules (Some x) permute =
                   Inr (Some \<lparr>json_shape = map int (nd_shape a), json_compression = ''zlib'',
                              json_shuffle = Some 4, json_dtype = ''float32'',
                              json_data = b64encode (compress zlib Z_BEST_SPEED bd)\<rparr>)) \<and>
            nd_dtype (np_astype a np_float32) = np_float32 \<and>
            itemsize np_float16 < itemsize np_float32 \<and>
            nd_items (np_astype a np_float32) = map half_to_float (nd_items a) \<and>
            map f32_value (nd_items (np_astype a np_float32)) = map f16_value (nd_items a)) \<and>
         (\<forall>t name c sh.
            nd_dtype a \<noteq> np_float16 \<and> dtype_mapping (nd_dtype a) = Some (t, name, c, sh) \<longrightarrow>
              t = nd_dtype a \<and> np_astype a t = a)"
proof (intro conjI impI allI)
  assume h: "nd_dtype a = np_float16"
  show m: "dtype_mapping (nd_dtype a) = Some (np_float32, ''float32'', ''zlib'', Some 4)"
    using h by (simp add: dtype_mapping_def)
  obtain bd where sb: "shuffle_bytes (Some 4)
                         (np_tobytes (np_flatten (np_astype a np_float32))) = Inr bd"
    using shuffle_bytes_mapping [OF m] by blast
  show "\<exists>bd. shuffle_bytes (Some 4)
                (np_tobytes (np_flatten (np_astype a np_float32))) = Inr bd \<and>
             tensor_to_json zlib sys_modules (Some x) permute =
               Inr (Some \<lparr>json_shape = map int (nd_shape a), json_compression = ''zlib'',
                          json_shuffle = Some 4, json_dtype = ''float32'',
                          json_data = b64encode (compress zlib Z_BEST_SPEED bd)\<rparr>)"
    using sb tensor_to_json_encode [OF assms(1,2) m sb, of zlib] by blast
  show "nd_dtype (np_astype a np_float32) = np_float32" by (simp add: np_astype_def)
  show "itemsize np_float16 < itemsize np_float32" by simp
  show "nd_items (np_astype a np_float32) = map half_to_float (nd_items a)"
    by (simp add: np_astype_float16 [OF h])
  show "map f32_value (nd_items (np_astype a np_float32)) = map f16_value (nd_items a)"
    by (rule float16_values [OF assms(3) h])
next
  fix t name c sh
  assume h: "nd_dtype a \<noteq> np_float16 \<and> dtype_mapping (nd_dtype a) = Some (t, name, c, sh)"
  then have t: "t = nd_dtype a" using dtype_mapping_target [of "nd_dtype a" t name c sh] by auto
  show "t = nd_dtype a" by (rule t)
  show "np_astype a t = a" unfolding t by (rule np_astype_same)
qed

theorem float16_widening_witness:
  "tensor_to_numpy {} (NdArray \<lparr>nd_dtype = np_float16, nd_shape = [3],
       nd_items = [0x3C00, 0x0001, 0xC000]\<rparr>) =
     Inr \<lparr>nd_dtype = np_float16, nd_shape = [3], nd_items = [0x3C00, 0x0001, 0xC000]\<rparr> \<and>
   permute_input \<lparr>nd_dtype = np_float16, nd_shape = [3],
       nd_items = [0x3C00, 0x0001, 0xC000]\<rparr> None =
     Inr \<lparr>nd_dtype = np_float16, nd_shape = [3], nd_items = [0x3C00, 0x0001, 0xC000]\<rparr> \<and>
   wf_ndarray \<lparr>nd_dtype = np_float16, nd_shape = [3], nd_items = [0x3C00, 0x0001, 0xC000]\<rparr> \<and>
   (\<exists>e. tensor_to_json \<lparr>compress = (\<lambda>level buf. buf), decompress = Some\<rparr> {}
           (Some (NdArray \<lparr>nd_dtype = np_float16, nd_shape = [3],
              nd_items = [0x3C00, 0x0001, 0xC000]\<rparr>)) None = Inr (Some e) \<and>
        json_dtype e = ''float32'' \<and> json_shuffle e = Some 4) \<and>
   map f32_value (nd_items (np_astype \<lparr>nd_dtype = np_float16, nd_shape = [3],
       nd_items = [0x3C00, 0x0001, 0xC000]\<rparr> np_float32)) =
     [Finite False 1, Finite False (1 / 2 ^ 24), Finite True 2]"
proof -
  let ?z = "\<lparr>compress = (\<lambda>level buf. buf), decompress = Some\<rparr>"
  let ?a = "\<lparr>nd_dtype = np_float16, nd_shape = [3], nd_items = [0x3C00, 0x0001, 0xC000]\<rparr>"
  have h1: "tensor_to_numpy {} (NdArray ?a) = Inr ?a" by (rule tensor_to_numpy_NdArray)
  have h2: "permute_input ?a None = Inr ?a" by (simp add: permute_input_def)
  have h3: "wf_ndarray ?a" by (simp add: wf_ndarray_def nd_size_def)
  have d: "nd_dtype ?a = np_float16" by simp
  have v: "map f16_value (nd_items ?a) = [Finite False 1, Finite False (1 / 2 ^ 24), Finite True 2]"
    by (simp add: f16_value_def)
  from float16_widening [OF h1 h2 h3, of ?z] d
  have r: "\<exists>bd. tensor_to_json ?z {} (Some (NdArray ?a)) None =
                 Inr (Some \<lparr>json_shape = map int (nd_shape ?a), json_compression = ''zlib'',
                            json_shuffle = Some 4, json_dtype = ''float32'',
                            json_data = b64encode (compress ?z Z_BEST_SPEED bd)\<rparr>)"
    and w: "map f32_value (nd_items (np_astype ?a np_float32)) = map f16_value (nd_items ?a)"
    by blast+
  from r have "\<exists>e. tensor_to_json ?z {} (Some (NdArray ?a)) None = Inr (Some e) \<and>
                 json_dtype e = ''float32'' \<and> json_shuffle e = Some 4"
    by auto
  with h1 h2 h3 w v show ?thesis by simp
qed

end
